theory Spec2Isabelle
  imports Complex_Main
begin

section \<open>Dynamite minibatch helpers (Source/Dynamite/CNTKLibraryHelpers.h)\<close>

text \<open>
  A shallow embedding of the three functions of the header: \<open>Index\<close> (slice the last
  axis and drop it), \<open>Eye\<close> with its helper \<open>MakeEye\<close> (the memoised identity matrix)
  and \<open>FromCNTKMB\<close> (unpacking of a minibatch). Exceptions are values of the type
  \<open>error\<close>; the function-static map of \<open>Eye\<close> and the output parameter \<open>res\<close> of
  \<open>FromCNTKMB\<close> are passed in and returned. A \<open>size_t\<close> is a natural number; where the
  source computes with it, the reduction modulo \<open>2 ^ 64\<close> is written out.
\<close>

subsection \<open>Data\<close>

text \<open>
  Modelled from the spec: the enumeration \<open>CNTK::DataType\<close> is declared in
  CNTKLibrary.h, not in this header. The header names \<open>DataType::Float\<close> and
  \<open>DataType::Double\<close> (lines 70-71), the "supported enumerated set" of the
  specification (4.2); \<open>OtherDataType\<close> stands for every other enumerator, by its
  numeric code.
\<close>

datatype DataType = Float | Double | OtherDataType nat

text \<open>
  Modelled from the spec: \<open>CNTK::DeviceDescriptor\<close> is declared in CNTKLibrary.h, not
  in this header. The header names the host device, \<open>DeviceDescriptor::CPUDevice()\<close>
  (line 55); \<open>GPUDevice\<close> stands for every other "target device identifier" (6).
\<close>

datatype DeviceDescriptor = CPUDevice | GPUDevice nat

text \<open>
  The failures of the header. The source throws \<open>std::logic_error\<close> with three
  messages; the constructors carry the names the specification gives them:
  \<^item> \<open>UnsupportedTypeError\<close>: "Eye: Unsupported data type." (line 72);
  \<^item> \<open>BatchShapeMismatchError\<close>: "FromCNTKMB: Streams must all have the same number
    of sequences." (line 101);
  \<^item> \<open>MalformedStreamError\<close>: "FromCNTKMB: Streams declared as !isSequence must have
    a trailing dimension of 1." (line 113).

  \<open>InvalidArgument\<close> is the rejection of a request by a library primitive.
  \<open>OutOfRange\<close> marks the places where the C++ reads or writes outside a vector
  (\<open>back()\<close> of an empty vector, an index past the end): the behaviour is undefined
  there, and the model stops with this value instead of computing on.
\<close>

datatype error =
    UnsupportedTypeError
  | BatchShapeMismatchError
  | MalformedStreamError
  | InvalidArgument
  | OutOfRange

text \<open>
  Modelled from the spec: the class \<open>CNTK::NDArrayView\<close> is declared in CNTKLibrary.h,
  not in this header. It is a tensor with the accessors the header calls: \<open>Shape\<close>
  (the dimensions), \<open>IsSparse\<close> (the storage format: "sparse-encoded" or dense),
  \<open>GetDataType\<close> and \<open>Device\<close>; \<open>IsReadOnly\<close> is the flag that the constructor and
  \<open>SliceView\<close> are given. \<open>Buffer\<close> lists the element values in storage order, the
  first axis running fastest. Element values are rationals: every finite \<open>float\<close> or
  \<open>double\<close> is one, and the header itself only ever writes 0 and 1.
\<close>

record NDArrayView =
  Shape :: "nat list"
  Buffer :: "rat list"
  IsSparse :: bool
  GetDataType :: DataType
  Device :: DeviceDescriptor
  IsReadOnly :: bool

definition TotalSize :: "nat list \<Rightarrow> nat" where
  "TotalSize dims = prod_list dims"

text \<open>A tensor is well formed when its buffer holds one value per element of its shape.\<close>

definition well_formed :: "NDArrayView \<Rightarrow> bool" where
  "well_formed v = (length (Buffer v) = TotalSize (Shape v))"

subsection \<open>Library primitives used by \<open>Index\<close>\<close>

text \<open>
  The elements of a slice, with the axes listed from the last one (the slowest) to the
  first: the buffer is a sequence of \<open>d\<close> blocks of \<open>TotalSize ds\<close> elements, the slice
  keeps the blocks \<open>off, ..., off + ext - 1\<close> and slices each of them in turn.
\<close>

fun slice_elements :: "nat list \<Rightarrow> nat list \<Rightarrow> nat list \<Rightarrow> rat list \<Rightarrow> rat list" where
  "slice_elements (d # ds) (off # offs) (ext # exts) xs =
     concat (map (\<lambda>k. slice_elements ds offs exts
                          (take (TotalSize ds) (drop (k * TotalSize ds) xs)))
                 [off ..< off + ext])"
| "slice_elements ds offs exts xs = xs"

text \<open>
  Modelled from the spec: \<open>NDArrayView::SliceView(startOffset, extent, readOnly)\<close> is a
  CNTK library function, not part of this header. The specification (4.1) and the
  comment at line 36 say: the slice starts at \<open>startOffset\<close> and has the given
  \<open>extent\<close> on each axis; an extent that is missing at the end defaults to 1 and
  gives no axis in the result ("a genuinely dropped axis, not a size-1 axis"). A slice
  that does not lie inside the tensor is rejected.
\<close>

definition SliceView :: "nat list \<Rightarrow> nat list \<Rightarrow> bool \<Rightarrow> NDArrayView \<Rightarrow> error + NDArrayView" where
  "SliceView startOffset extent readOnly v =
     (let dims = Shape v;
          full = extent @ replicate (length dims - length extent) 1
      in if length startOffset \<noteq> length dims \<or> length dims < length extent
            \<or> (\<exists>k \<in> {0 ..< length dims}. dims ! k < startOffset ! k + full ! k)
         then Inl InvalidArgument
         else Inr (v\<lparr>Shape := extent,
                      Buffer := slice_elements (rev dims) (rev startOffset) (rev full) (Buffer v),
                      IsReadOnly := readOnly\<rparr>))"

text \<open>
  Modelled from the spec: \<open>NDArrayView::AsShape(newShape)\<close> is a CNTK library function,
  not part of this header. The specification (4.1) calls it "a pure reshape": the same
  elements under another shape descriptor, which must have as many elements.
\<close>

definition AsShape :: "nat list \<Rightarrow> NDArrayView \<Rightarrow> error + NDArrayView" where
  "AsShape newShape v =
     (if TotalSize newShape \<noteq> TotalSize (Shape v) then Inl InvalidArgument
      else Inr (v\<lparr>Shape := newShape\<rparr>))"

subsection \<open>\<open>Index\<close> (lines 28-46)\<close>

text \<open>
  The condition of line 33, on the vectors the source builds: \<open>startOffset\<close> is all
  zeros and \<open>extent\<close> is a copy of the dimensions.
\<close>

definition Index_slices :: "NDArrayView \<Rightarrow> nat \<Rightarrow> bool" where
  "Index_slices data i =
     (let dims = Shape data;
          startOffset = replicate (length dims) (0::nat);
          extent = dims
      in last startOffset \<noteq> i \<or> last extent \<noteq> 1)"

text \<open>
  \<open>back()\<close> of an empty vector is undefined: a tensor of rank 0 gives \<open>OutOfRange\<close>.
  Otherwise line 35 overwrites the last start offset, line 36 removes the last extent
  and line 37 slices; the other branch reshapes to the dimensions without the last.
\<close>

definition Index :: "NDArrayView \<Rightarrow> nat \<Rightarrow> error + NDArrayView" where
  "Index data i =
     (let dims = Shape data;
          startOffset = replicate (length dims) (0::nat);
          extent = dims
      in if dims = [] then Inl OutOfRange
         else if Index_slices data i
         then SliceView (startOffset[length startOffset - 1 := i]) (butlast extent) True data
         else AsShape (butlast dims) data)"

subsection \<open>Library primitives used by \<open>MakeEye\<close>\<close>

text \<open>
  Modelled from the spec: the \<open>NDArrayView\<close> constructor over a host buffer (data type,
  shape, buffer, size in bytes, device, read-only flag) is a CNTK library function, not
  part of this header. The specification (4.2, 6) calls it "construct a tensor from the
  buffer": a dense tensor of the given shape holding the buffer's values.
\<close>

definition NDArrayView_of_buffer ::
  "DataType \<Rightarrow> nat list \<Rightarrow> rat list \<Rightarrow> nat \<Rightarrow> DeviceDescriptor \<Rightarrow> bool \<Rightarrow> NDArrayView" where
  "NDArrayView_of_buffer dataType viewShape dataBuffer bufferSizeInBytes device readOnly =
     \<lparr>Shape = viewShape, Buffer = dataBuffer, IsSparse = False,
      GetDataType = dataType, Device = device, IsReadOnly = readOnly\<rparr>"

text \<open>
  Modelled from the spec: \<open>NDArrayView::DeepClone(device)\<close> is a CNTK library function,
  not part of this header. The specification (4.2) calls it the transfer (deep copy)
  to the requested device: the same tensor, resident on \<open>device\<close>.
\<close>

definition DeepClone :: "DeviceDescriptor \<Rightarrow> NDArrayView \<Rightarrow> NDArrayView" where
  "DeepClone device v = v\<lparr>Device := device, IsReadOnly := False\<rparr>"

subsection \<open>\<open>MakeEye\<close> (lines 49-58) and \<open>Eye\<close> (lines 59-76)\<close>

text \<open>
  The loop of lines 53-54 over the remaining values of \<open>i\<close>. The index \<open>i*n + i\<close> is
  computed in \<open>size_t\<close>; a write past the end of the buffer is \<open>OutOfRange\<close>.
\<close>

fun MakeEye_fill :: "nat \<Rightarrow> nat list \<Rightarrow> rat list \<Rightarrow> error + rat list" where
  "MakeEye_fill n [] buffer = Inr buffer"
| "MakeEye_fill n (i # is) buffer =
     (let k = (i * n + i) mod 2 ^ 64
      in if k < length buffer then MakeEye_fill n is (buffer[k := 1]) else Inl OutOfRange)"

text \<open>
  \<open>elementSize\<close> is \<open>sizeof(ElementType)\<close> of the template argument. The buffer has
  \<open>n*n\<close> elements (in \<open>size_t\<close>), all zero; the tensor is built on the CPU device and
  then cloned to \<open>device\<close>.
\<close>

definition MakeEye :: "nat \<Rightarrow> nat \<Rightarrow> DataType \<Rightarrow> DeviceDescriptor \<Rightarrow> error + NDArrayView" where
  "MakeEye elementSize n dataType device =
     (case MakeEye_fill n [0 ..< n] (replicate ((n * n) mod 2 ^ 64) 0) of
        Inl e \<Rightarrow> Inl e
      | Inr buffer \<Rightarrow>
          (let eye = NDArrayView_of_buffer dataType [n, n] buffer
                       ((length buffer * elementSize) mod 2 ^ 64) CPUDevice False
           in Inr (DeepClone device eye)))"

text \<open>The function-static map \<open>cached\<close> of \<open>Eye\<close>, keyed by \<open>(n, dataType)\<close>.\<close>

type_synonym Eye_cache = "nat \<times> DataType \<rightharpoonup> NDArrayView"

text \<open>
  \<open>Eye\<close> takes the map and returns it with the result. A hit returns the stored tensor
  and leaves the map alone, whatever \<open>device\<close> is. On a miss the switch of lines 68-73
  picks \<open>MakeEye<float>\<close> or \<open>MakeEye<double>\<close> or throws; the throw happens before
  line 74, so a failing call leaves the map alone as well.
\<close>

definition Eye :: "Eye_cache \<Rightarrow> nat \<Rightarrow> DataType \<Rightarrow> DeviceDescriptor \<Rightarrow> (error + NDArrayView) \<times> Eye_cache" where
  "Eye cached n dataType device =
     (let key = (n, dataType)
      in case cached key of
           Some found \<Rightarrow> (Inr found, cached)
         | None \<Rightarrow>
             (case (case dataType of
                      Float \<Rightarrow> MakeEye 4 n dataType device
                    | Double \<Rightarrow> MakeEye 8 n dataType device
                    | _ \<Rightarrow> Inl UnsupportedTypeError) of
                Inl e \<Rightarrow> (Inl e, cached)
              | Inr eye \<Rightarrow> (Inr eye, cached(key \<mapsto> eye))))"

text \<open>
  Only \<open>Eye\<close> writes to the map: \<open>Eye_calls cached calls\<close> is the map after the calls
  \<open>(n, dataType, device)\<close> of the list, made in order on the map \<open>cached\<close>. The map of a
  running program is \<open>Eye_calls Map.empty calls\<close> for the calls made so far.
\<close>

definition Eye_calls :: "Eye_cache \<Rightarrow> (nat \<times> DataType \<times> DeviceDescriptor) list \<Rightarrow> Eye_cache" where
  "Eye_calls cached calls =
     foldl (\<lambda>c (n, dataType, device). snd (Eye c n dataType device)) cached calls"

text \<open>What every entry of the map is: an identity matrix that \<open>MakeEye\<close> built.\<close>

definition Eye_cache_ok :: "Eye_cache \<Rightarrow> bool" where
  "Eye_cache_ok cached =
     (\<forall>n dataType eye. cached (n, dataType) = Some eye \<longrightarrow>
        (\<exists>device. (dataType = Float \<and> MakeEye 4 n dataType device = Inr eye)
                 \<or> (dataType = Double \<and> MakeEye 8 n dataType device = Inr eye)))"

subsection \<open>Library primitives used by \<open>FromCNTKMB\<close>\<close>

text \<open>
  A matrix of \<open>rows\<close> by \<open>cols\<close> elements is stored column by column: element \<open>(i, j)\<close>
  is at position \<open>i + rows * j\<close>.
\<close>

definition transpose_elements :: "nat \<Rightarrow> nat \<Rightarrow> rat list \<Rightarrow> rat list" where
  "transpose_elements rows cols xs =
     map (\<lambda>c. xs ! (c div cols + rows * (c mod cols))) [0 ..< rows * cols]"

definition product_elements :: "nat \<Rightarrow> nat \<Rightarrow> nat \<Rightarrow> rat \<Rightarrow> rat list \<Rightarrow> rat list \<Rightarrow> rat list" where
  "product_elements m k n alpha a b =
     map (\<lambda>c. alpha * (\<Sum>l \<leftarrow> [0 ..< k]. a ! (c mod m + m * l) * b ! (l + k * (c div m))))
         [0 ..< m * n]"

text \<open>
  Modelled from the spec: \<open>NDArrayView::MatrixProduct(transC, inputA, transA, inputB,
  transB, alpha, outputRank)\<close> is a CNTK library function, not part of this header. The
  specification (4.3, step 5b) describes the one call made here: "the matrix product
  Identity(n) x example (left-multiply, no transpose, scale 1.0)", which "forces
  materialization into dense storage". The first factor is read as a matrix whose rows
  are its first \<open>outputRank\<close> axes, the second as a matrix whose rows are the axes that
  are summed over; a factor whose flag is set is transposed first, and so is the result.
  The specification does not say where the result lives: it takes the data type and the
  device of the second factor.
\<close>

definition MatrixProduct ::
  "bool \<Rightarrow> NDArrayView \<Rightarrow> bool \<Rightarrow> NDArrayView \<Rightarrow> bool \<Rightarrow> rat \<Rightarrow> nat \<Rightarrow> error + NDArrayView" where
  "MatrixProduct transC inputA transA inputB transB alpha outputRank =
     (let reduceRank = length (Shape inputA) - outputRank;
          rowsA = TotalSize (take outputRank (Shape inputA));
          colsA = TotalSize (drop outputRank (Shape inputA));
          rowsB = TotalSize (take reduceRank (Shape inputB));
          colsB = TotalSize (drop reduceRank (Shape inputB));
          m = (if transA then colsA else rowsA);
          k = (if transA then rowsA else colsA);
          k' = (if transB then colsB else rowsB);
          n = (if transB then rowsB else colsB);
          a = (if transA then transpose_elements rowsA colsA (Buffer inputA) else Buffer inputA);
          b = (if transB then transpose_elements rowsB colsB (Buffer inputB) else Buffer inputB);
          c = product_elements m k n alpha a b
      in if length (Shape inputA) < outputRank \<or> length (Shape inputB) < reduceRank \<or> k \<noteq> k'
         then Inl InvalidArgument
         else Inr \<lparr>Shape = (if transC then [n, m]
                             else if transA \<or> transB then [m, n]
                             else take outputRank (Shape inputA) @ drop reduceRank (Shape inputB)),
                    Buffer = (if transC then transpose_elements m n c else c),
                    IsSparse = False,
                    GetDataType = GetDataType inputB,
                    Device = Device inputB,
                    IsReadOnly = False\<rparr>)"

text \<open>
  Modelled from the spec: \<open>CNTK::Axis\<close> and its constant
  \<open>Axis::DefaultInputVariableDynamicAxes()\<close> are declared in CNTKLibrary.h, not in this
  header. The specification (4.3, step 2) says: "sequential streams get the standard
  [batch, length] dynamic-axis pair; non-sequential streams get only a batch axis".
\<close>

datatype Axis = DefaultDynamicAxis | DefaultBatchAxis

definition DefaultInputVariableDynamicAxes :: "Axis list" where
  "DefaultInputVariableDynamicAxes = [DefaultDynamicAxis, DefaultBatchAxis]"

text \<open>
  Modelled from the spec: the class \<open>CNTK::Variable\<close> is declared in CNTKLibrary.h, not
  in this header. The header uses three kinds of it: the default-constructed variable
  that \<open>resize\<close> fills a vector with, the input variable of line 96 (sample shape,
  sparsity, data type, dynamic axes) and the constant of line 124, which wraps a tensor
  ("an immutable computation-graph constant"). \<open>DynamicAxes\<close> reads the axes an input
  variable was built with.
\<close>

datatype Variable =
    NullVariable
  | InputVariable "nat list" bool DataType "Axis list"
  | Constant NDArrayView

fun DynamicAxes :: "Variable \<Rightarrow> Axis list" where
  "DynamicAxes (InputVariable sampleShape isSparse dataType dynamicAxes) = dynamicAxes"
| "DynamicAxes v = []"

text \<open>
  Modelled from the spec: the class \<open>CNTK::Value\<close> is declared in CNTKLibrary.h, not in
  this header. It is one packed stream, "an opaque, device-resident tensor value" of
  shape \<open>sample ++ [length, batchSize]\<close> (3), with the accessors \<open>Shape\<close>, \<open>IsSparse\<close>
  and \<open>GetDataType\<close> of its tensor.
\<close>

type_synonym Value = NDArrayView

text \<open>
  Modelled from the spec: \<open>NDShape::SubShape(begin, end)\<close> is a CNTK library function,
  not part of this header: the axes from \<open>begin\<close> up to, not including, \<open>end\<close>
  (4.3, step 1: "stripping the trailing two axes").
\<close>

definition SubShape :: "nat list \<Rightarrow> nat \<Rightarrow> nat \<Rightarrow> nat list" where
  "SubShape dims beginAxisId endAxisId = take (endAxisId - beginAxisId) (drop beginAxisId dims)"

text \<open>
  Modelled from the spec: \<open>Value::UnpackVariableValue(variable, device)\<close> is a CNTK
  library function, not part of this header. The specification (3; 4.3, step 3; 8)
  says: a packed stream of shape \<open>sample ++ [length, batch]\<close> is unpacked into one view
  per batch item, in batch order, "using the sample shape and axis configuration"; an
  example keeps its length axis (which is why a stream without a sequence axis has a
  trailing dimension of 1 to drop). A stream of rank below 2 is outside the input
  contract and has no examples here.
\<close>

definition UnpackVariableValue :: "Value \<Rightarrow> Variable \<Rightarrow> DeviceDescriptor \<Rightarrow> NDArrayView list" where
  "UnpackVariableValue input variable device =
     (case variable of
        InputVariable sampleShape isSparse dataType dynamicAxes \<Rightarrow>
          (let fullShape = Shape input
           in if length fullShape < 2 then []
              else (let seqLen = fullShape ! (length fullShape - 2);
                        numSeq = last fullShape;
                        exampleShape = sampleShape @ [seqLen];
                        m = TotalSize exampleShape
                    in map (\<lambda>s. \<lparr>Shape = exampleShape,
                                   Buffer = take m (drop (s * m) (Buffer input)),
                                   IsSparse = isSparse,
                                   GetDataType = dataType,
                                   Device = device,
                                   IsReadOnly = True\<rparr>)
                           [0 ..< numSeq]))
      | _ \<Rightarrow> [])"

subsection \<open>\<open>FromCNTKMB\<close> (lines 80-128)\<close>

text \<open>\<open>std::vector::clear\<close> and \<open>std::vector::resize\<close>.\<close>

definition vector_clear :: "'a list \<Rightarrow> 'a list" where
  "vector_clear v = []"

definition vector_resize :: "nat \<Rightarrow> 'a \<Rightarrow> 'a list \<Rightarrow> 'a list" where
  "vector_resize n dflt v = take n v @ replicate (n - length v) dflt"

text \<open>
  Lines 98-101: \<open>numSeq\<close> is taken from the stream while it is still 0, and compared
  with the stream's number of sequences afterwards.
\<close>

definition check_numSeq :: "nat \<Rightarrow> nat \<Rightarrow> error + nat" where
  "check_numSeq numSeq sequencesSize =
     (if numSeq = 0 then Inr sequencesSize
      else if numSeq \<noteq> sequencesSize then Inl BatchShapeMismatchError
      else Inr numSeq)"

text \<open>
  Lines 110-115: a stream without a sequence axis loses its trailing axis, which must
  have dimension 1. \<open>back()\<close> of the dimensions of a tensor of rank 0 is undefined.
\<close>

definition drop_sample_axis :: "bool \<Rightarrow> NDArrayView \<Rightarrow> error + NDArrayView" where
  "drop_sample_axis hasAxis data =
     (if \<not> hasAxis
      then (if Shape data = [] then Inl OutOfRange
            else if last (Shape data) \<noteq> 1 then Inl MalformedStreamError
            else Index data 0)
      else Inr data)"

text \<open>
  Lines 117-122: sparse data is multiplied with the identity matrix of its leading
  dimension. \<open>Shape()[0]\<close> of a tensor of rank 0 is outside the shape.
\<close>

definition densify :: "Eye_cache \<Rightarrow> NDArrayView \<Rightarrow> (error + NDArrayView) \<times> Eye_cache" where
  "densify cached data =
     (if IsSparse data
      then (case Shape data of
              [] \<Rightarrow> (Inl OutOfRange, cached)
            | n # rest \<Rightarrow>
                (case Eye cached n (GetDataType data) (Device data) of
                   (Inl e, cached') \<Rightarrow> (Inl e, cached')
                 | (Inr eye, cached') \<Rightarrow>
                     (MatrixProduct False eye False data False 1 1, cached')))
      else (Inr data, cached))"

text \<open>Lines 108-124, the body of the inner loop for one sequence.\<close>

definition convert_sequence ::
  "bool \<Rightarrow> Eye_cache \<Rightarrow> NDArrayView \<Rightarrow> (error + Variable) \<times> Eye_cache" where
  "convert_sequence hasAxis cached data =
     (case drop_sample_axis hasAxis data of
        Inl e \<Rightarrow> (Inl e, cached)
      | Inr data' \<Rightarrow>
          (case densify cached data' of
             (Inl e, cached') \<Rightarrow> (Inl e, cached')
           | (Inr dense, cached') \<Rightarrow> (Inr (Constant dense), cached')))"

text \<open>
  The inner loop (lines 106-126) over the remaining values of \<open>s\<close>. \<open>arg\<close> is a
  reference into \<open>res\<close>: what was stored before a throw stays stored. The result is
  the error thrown, if any, with \<open>arg\<close> and the map as they are then.
\<close>

fun sequences_loop ::
  "bool \<Rightarrow> NDArrayView list \<Rightarrow> nat list \<Rightarrow> Variable list \<Rightarrow> Eye_cache
     \<Rightarrow> error option \<times> Variable list \<times> Eye_cache" where
  "sequences_loop hasAxis sequences [] arg cached = (None, arg, cached)"
| "sequences_loop hasAxis sequences (s # ss) arg cached =
     (if length sequences \<le> s \<or> length arg \<le> s then (Some OutOfRange, arg, cached)
      else (case convert_sequence hasAxis cached (sequences ! s) of
              (Inl e, cached') \<Rightarrow> (Some e, arg, cached')
            | (Inr v, cached') \<Rightarrow> sequences_loop hasAxis sequences ss (arg[s := v]) cached'))"

text \<open>
  The unpacking primitive (\<open>Value::UnpackVariableValue\<close>, CNTK library) is a parameter of
  the model of \<open>FromCNTKMB\<close>: from the stream, the input variable built for it and the
  device to the stream's sequences. What the header does is the same for every such
  function; a failure inside the primitive itself is not part of the model.
\<close>

type_synonym unpacker = "Value \<Rightarrow> Variable \<Rightarrow> DeviceDescriptor \<Rightarrow> NDArrayView list"

text \<open>
  Line 94-96: the input variable built for stream \<open>input\<close>. \<open>Rank() - 2\<close> is computed in
  \<open>size_t\<close>.
\<close>

definition stream_variable :: "Value \<Rightarrow> bool \<Rightarrow> Variable" where
  "stream_variable input isSeq =
     (let fullShape = Shape input;
          sampleShape = SubShape fullShape 0 ((length fullShape + 2 ^ 64 - 2) mod 2 ^ 64);
          dynamicAxes = (if isSeq then DefaultInputVariableDynamicAxes else [DefaultBatchAxis])
      in InputVariable sampleShape (IsSparse input) (GetDataType input) dynamicAxes)"

text \<open>
  Lines 88-126, the body of the outer loop for argument \<open>i\<close>, on the state
  \<open>(res, numSeq, cached)\<close>. \<open>i\<close> is below \<open>inputs.size()\<close>; \<open>isSequence[i]\<close> past the end
  of \<open>isSequence\<close> is \<open>OutOfRange\<close>.
\<close>

definition convert_argument ::
  "unpacker \<Rightarrow> Value list \<Rightarrow> bool list \<Rightarrow> DeviceDescriptor \<Rightarrow> nat
     \<Rightarrow> Variable list list \<times> nat \<times> Eye_cache
     \<Rightarrow> error option \<times> Variable list list \<times> nat \<times> Eye_cache" where
  "convert_argument unpack inputs isSequence device i state =
     (case state of (res, numSeq, cached) \<Rightarrow>
        if length isSequence \<le> i \<or> length inputs \<le> i \<or> length res \<le> i
        then (Some OutOfRange, res, numSeq, cached)
        else (let input = inputs ! i;
                  variable = stream_variable input (isSequence ! i);
                  sequences = unpack input variable device
              in case check_numSeq numSeq (length sequences) of
                   Inl e \<Rightarrow> (Some e, res, numSeq, cached)
                 | Inr numSeq' \<Rightarrow>
                     (let hasAxis = (length (DynamicAxes variable) > 1);
                          arg = vector_resize numSeq' NullVariable (res ! i)
                      in case sequences_loop hasAxis sequences [0 ..< numSeq'] arg cached of
                           (failure, arg', cached') \<Rightarrow>
                             (failure, res[i := arg'], numSeq', cached'))))"

text \<open>The outer loop (lines 86-127) over the remaining values of \<open>i\<close>.\<close>

fun arguments_loop ::
  "unpacker \<Rightarrow> Value list \<Rightarrow> bool list \<Rightarrow> DeviceDescriptor \<Rightarrow> nat list
     \<Rightarrow> Variable list list \<times> nat \<times> Eye_cache
     \<Rightarrow> error option \<times> Variable list list \<times> nat \<times> Eye_cache" where
  "arguments_loop unpack inputs isSequence device [] state = (None, state)"
| "arguments_loop unpack inputs isSequence device (i # is) state =
     (case convert_argument unpack inputs isSequence device i state of
        (Some e, state') \<Rightarrow> (Some e, state')
      | (None, state') \<Rightarrow> arguments_loop unpack inputs isSequence device is state')"

text \<open>
  \<open>FromCNTKMB\<close> writes its result into the reference parameter \<open>res\<close> and returns
  nothing. The model takes the initial contents of \<open>res\<close> and the map of \<open>Eye\<close>, and
  returns the error thrown (\<open>None\<close> for a normal return) with \<open>res\<close> and the map as the
  caller finds them afterwards.
\<close>

definition FromCNTKMB ::
  "unpacker \<Rightarrow> Eye_cache \<Rightarrow> Variable list list \<Rightarrow> Value list \<Rightarrow> bool list \<Rightarrow> DeviceDescriptor
     \<Rightarrow> error option \<times> Variable list list \<times> Eye_cache" where
  "FromCNTKMB unpack cached res inputs isSequence device =
     (let numArgs = length inputs;
          res1 = vector_clear res;
          res2 = vector_resize numArgs [] res1
      in case arguments_loop unpack inputs isSequence device [0 ..< numArgs] (res2, 0, cached) of
           (failure, res', numSeq, cached') \<Rightarrow> (failure, res', cached'))"

subsection \<open>Vocabulary for the properties of \<open>FromCNTKMB\<close>\<close>

text \<open>The vector \<open>sequences\<close> of line 97 for argument \<open>i\<close>.\<close>

definition stream_sequences ::
  "unpacker \<Rightarrow> Value list \<Rightarrow> bool list \<Rightarrow> DeviceDescriptor \<Rightarrow> nat \<Rightarrow> NDArrayView list" where
  "stream_sequences unpack inputs isSequence device i =
     unpack (inputs ! i) (stream_variable (inputs ! i) (isSequence ! i)) device"

text \<open>
  An example that lines 108-124 convert without a throw, whatever the map of \<open>Eye\<close>
  holds: a stream without a sequence axis has a trailing dimension of 1, and sparse
  data has a leading dimension (below \<open>2 ^ 32\<close>) and a supported data type.
\<close>

definition convertible :: "bool \<Rightarrow> NDArrayView \<Rightarrow> bool" where
  "convertible hasAxis data =
     ((hasAxis \<or> (Shape data \<noteq> [] \<and> last (Shape data) = 1))
      \<and> (if IsSparse data
         then (let dims = (if hasAxis then Shape data else butlast (Shape data))
               in dims \<noteq> [] \<and> hd dims < 2 ^ 32
                  \<and> (GetDataType data = Float \<or> GetDataType data = Double))
         else True))"

text \<open>
  An example at which line 113 throws when the loop reaches it: the stream has no
  sequence axis and the trailing dimension is not 1.
\<close>

definition malformed :: "bool \<Rightarrow> NDArrayView \<Rightarrow> bool" where
  "malformed hasAxis data = (\<not> hasAxis \<and> Shape data \<noteq> [] \<and> last (Shape data) \<noteq> 1)"

text \<open>
  An entry of \<open>res\<close> that holds the conversion of argument \<open>i\<close>: one element per
  sequence of the stream, each the result of lines 108-124 on that sequence (run on
  some map of identity matrices).
\<close>

definition argument_converted ::
  "unpacker \<Rightarrow> Value list \<Rightarrow> bool list \<Rightarrow> DeviceDescriptor \<Rightarrow> nat \<Rightarrow> Variable list \<Rightarrow> bool" where
  "argument_converted unpack inputs isSequence device i arg =
     (i < length isSequence
      \<and> length arg = length (stream_sequences unpack inputs isSequence device i)
      \<and> (\<forall>s < length arg. \<exists>c0 c1. Eye_cache_ok c0
            \<and> convert_sequence (isSequence ! i) c0
                 (stream_sequences unpack inputs isSequence device i ! s) = (Inr (arg ! s), c1)))"

subsection \<open>Example data\<close>

text \<open>
  A single-precision tensor on the CPU device with the given shape, elements and
  storage format: the examples below are built from it.
\<close>

definition float_tensor :: "nat list \<Rightarrow> rat list \<Rightarrow> bool \<Rightarrow> NDArrayView" where
  "float_tensor dims elements sparse =
     \<lparr>Shape = dims, Buffer = elements, IsSparse = sparse,
      GetDataType = Float, Device = CPUDevice, IsReadOnly = False\<rparr>"

text \<open>
  Packed streams of sample shape \<open>[2]\<close>, written \<open>sample @ [length, batch]\<close>: \<open>stream_A\<close>
  has one sequence of length 1 and \<open>stream_B\<close> two; \<open>stream_L\<close> has one sequence of
  length 2 and \<open>stream_M\<close> two; \<open>stream_Z\<close> has no sequence at all.
\<close>

definition stream_A :: Value where "stream_A = float_tensor [2, 1, 1] [1, 2] False"
definition stream_B :: Value where "stream_B = float_tensor [2, 1, 2] [1, 2, 3, 4] False"
definition stream_L :: Value where "stream_L = float_tensor [2, 2, 1] [1, 2, 3, 4] False"
definition stream_M :: Value where "stream_M = float_tensor [2, 2, 2] [1, 2, 3, 4, 5, 6, 7, 8] False"
definition stream_Z :: Value where "stream_Z = float_tensor [2, 1, 0] [] False"

text \<open>The stream \<open>stream_B\<close> in sparse storage.\<close>

definition stream_S :: Value where "stream_S = float_tensor [2, 1, 2] [1, 2, 3, 4] True"

text \<open>
  A sparse stream like \<open>stream_A\<close> whose data type is neither \<open>Float\<close> nor \<open>Double\<close>.
\<close>

definition stream_U :: Value where
  "stream_U = (float_tensor [2, 1, 1] [1, 2] True)\<lparr>GetDataType := OtherDataType 3\<rparr>"

section \<open>Properties\<close>

subsection \<open>Slices\<close>

lemma concat_blocks:
  "length xs = d * m \<Longrightarrow>
     concat (map (\<lambda>k. take m (drop (k * m) xs)) [0 ..< d]) = xs"
proof (induction d arbitrary: xs)
  case 0
  then show ?case by simp
next
  case (Suc d)
  have len: "length (take (d * m) xs) = d * m"
    using Suc.prems by simp
  have "concat (map (\<lambda>k. take m (drop (k * m) xs)) [0 ..< d])
        = concat (map (\<lambda>k. take m (drop (k * m) (take (d * m) xs))) [0 ..< d])"
  proof -
    have "\<And>k. k < d \<Longrightarrow> take m (drop (k * m) xs) = take m (drop (k * m) (take (d * m) xs))"
    proof -
      fix k assume "k < d"
      then have "Suc k \<le> d" by simp
      then have "Suc k * m \<le> d * m" by (rule mult_le_mono1)
      then have "m \<le> d * m - k * m" by simp
      then show "take m (drop (k * m) xs) = take m (drop (k * m) (take (d * m) xs))"
        by (simp add: drop_take min_def)
    qed
    then show ?thesis by (auto intro!: arg_cong [where f = concat] map_cong)
  qed
  also have "\<dots> = take (d * m) xs"
    using Suc.IH [OF len] .
  finally have "concat (map (\<lambda>k. take m (drop (k * m) xs)) [0 ..< Suc d])
        = take (d * m) xs @ take m (drop (d * m) xs)"
    by simp
  also have "\<dots> = xs"
    using Suc.prems by simp
  finally show ?case .
qed

lemma slice_elements_full:
  "length xs = TotalSize ds \<Longrightarrow>
     slice_elements ds (replicate (length ds) 0) ds xs = xs"
proof (induction ds arbitrary: xs)
  case Nil
  then show ?case by simp
next
  case (Cons d ds)
  have len: "length xs = d * TotalSize ds"
    using Cons.prems by (simp add: TotalSize_def)
  have block: "\<And>k. k < d \<Longrightarrow>
      length (take (TotalSize ds) (drop (k * TotalSize ds) xs)) = TotalSize ds"
  proof -
    fix k assume "k < d"
    then have "Suc k \<le> d" by simp
    then have "Suc k * TotalSize ds \<le> d * TotalSize ds" by (rule mult_le_mono1)
    then show "length (take (TotalSize ds) (drop (k * TotalSize ds) xs)) = TotalSize ds"
      using len by simp
  qed
  have "slice_elements (d # ds) (replicate (length (d # ds)) 0) (d # ds) xs
        = concat (map (\<lambda>k. slice_elements ds (replicate (length ds) 0) ds
                     (take (TotalSize ds) (drop (k * TotalSize ds) xs))) [0 ..< d])"
    by simp
  also have "\<dots> = concat (map (\<lambda>k. take (TotalSize ds) (drop (k * TotalSize ds) xs)) [0 ..< d])"
    using Cons.IH block by (auto intro!: arg_cong [where f = concat] map_cong)
  also have "\<dots> = xs"
    using len by (rule concat_blocks)
  finally show ?case .
qed

lemma TotalSize_rev: "TotalSize (rev ds) = TotalSize ds"
  by (simp add: TotalSize_def prod_list.rev)

lemma TotalSize_snoc: "TotalSize (ds @ [d]) = TotalSize ds * d"
  by (simp add: TotalSize_def)

lemma Index_slices_iff:
  "Shape T \<noteq> [] \<Longrightarrow> Index_slices T i \<longleftrightarrow> \<not> (i = 0 \<and> last (Shape T) = 1)"
  by (auto simp: Index_slices_def Let_def)

lemma SliceView_last:
  assumes wf: "well_formed T" and sh: "Shape T = ds @ [d]" and i: "i < d"
  shows "SliceView ((replicate (length (Shape T)) 0)[length (replicate (length (Shape T)) (0::nat)) - 1 := i])
           (butlast (Shape T)) True T
         = Inr (T\<lparr>Shape := ds,
                  Buffer := take (TotalSize ds) (drop (i * TotalSize ds) (Buffer T)),
                  IsReadOnly := True\<rparr>)"
proof -
  let ?start = "(replicate (length (Shape T)) 0)[length (replicate (length (Shape T)) (0::nat)) - 1 := i]"
  have zeros: "replicate (length (Shape T)) (0::nat) = replicate (length ds) 0 @ [0]"
    by (simp add: sh replicate_append_same)
  have start: "?start = replicate (length ds) 0 @ [i]"
    unfolding zeros by (simp add: list_update_append)
  have len: "length (Buffer T) = TotalSize ds * d"
    using wf by (simp add: well_formed_def sh TotalSize_snoc)
  have "Suc i \<le> d" using i by simp
  then have "Suc i * TotalSize ds \<le> d * TotalSize ds" by (rule mult_le_mono1)
  then have blk: "length (take (TotalSize ds) (drop (i * TotalSize ds) (Buffer T))) = TotalSize (rev ds)"
    using len by (simp add: TotalSize_rev mult.commute)
  have inside: "\<not> (\<exists>k \<in> {0 ..< length (ds @ [d])}.
      (ds @ [d]) ! k < (replicate (length ds) 0 @ [i]) ! k + (ds @ [1]) ! k)"
    using i by (auto simp: nth_append less_Suc_eq)
  have buf: "slice_elements (rev (ds @ [d])) (rev (replicate (length ds) 0 @ [i])) (rev (ds @ [1])) (Buffer T)
      = take (TotalSize ds) (drop (i * TotalSize ds) (Buffer T))"
    using slice_elements_full [OF blk] by (simp add: TotalSize_rev)
  show ?thesis
    unfolding SliceView_def start
    using inside buf by (simp add: sh Let_def)
qed

subsection \<open>\<open>Index\<close>\<close>

text \<open>
  C3. For a well-formed tensor \<open>T\<close> of rank at least 1 and an index \<open>i\<close> inside its last
  axis, \<open>Index T i\<close> returns a tensor whose shape is the shape of \<open>T\<close> without the last
  axis and whose elements are block \<open>i\<close> of \<open>T\<close> along that axis. The test of line 33
  sends the call to the slice exactly when \<open>i = 0\<close> and last dimension 1 do not both
  hold; otherwise the call is the reshape. Either way the last axis is gone.
\<close>

theorem Index_drops_last_axis:
  assumes "well_formed T" and "Shape T \<noteq> []" and "i < last (Shape T)"
  shows "\<exists>T'. Index T i = Inr T'
           \<and> Shape T' = butlast (Shape T)
           \<and> Buffer T' = take (TotalSize (butlast (Shape T)))
                           (drop (i * TotalSize (butlast (Shape T))) (Buffer T))
           \<and> (Index_slices T i \<longleftrightarrow> \<not> (i = 0 \<and> last (Shape T) = 1))
           \<and> (if i = 0 \<and> last (Shape T) = 1
               then Index T i = AsShape (butlast (Shape T)) T
               else Index T i = SliceView ((replicate (length (Shape T)) 0)[length (Shape T) - 1 := i])
                                  (butlast (Shape T)) True T)"
proof -
  obtain ds d where sh: "Shape T = ds @ [d]"
    using assms(2) by (metis rev_exhaust)
  have i: "i < d" using assms(3) sh by simp
  have iff: "Index_slices T i \<longleftrightarrow> \<not> (i = 0 \<and> last (Shape T) = 1)"
    using assms(2) by (rule Index_slices_iff)
  show ?thesis
  proof (cases "i = 0 \<and> last (Shape T) = 1")
    case True
    then have d: "d = 1" using sh by simp
    have len: "length (Buffer T) = TotalSize ds"
      using assms(1) by (simp add: well_formed_def sh d TotalSize_snoc)
    have "Index T i = AsShape (butlast (Shape T)) T"
      using iff True assms(2) by (simp add: Index_def Let_def)
    moreover have "AsShape (butlast (Shape T)) T = Inr (T\<lparr>Shape := ds\<rparr>)"
      by (simp add: AsShape_def sh d TotalSize_snoc)
    ultimately show ?thesis
      using True iff len by (simp add: sh)
  next
    case False
    have "Index T i = SliceView ((replicate (length (Shape T)) 0)[length (replicate (length (Shape T)) (0::nat)) - 1 := i])
                                  (butlast (Shape T)) True T"
      using iff False assms(2) by (simp add: Index_def Let_def)
    moreover note SliceView_last [OF assms(1) sh i]
    ultimately show ?thesis
      using False iff by (auto simp: sh)
  qed
qed

theorem Index_drops_last_axis_witness:
  "well_formed (float_tensor [2, 3] [1, 2, 3, 4, 5, 6] False)
   \<and> Shape (float_tensor [2, 3] [1, 2, 3, 4, 5, 6] False) \<noteq> []
   \<and> 1 < last (Shape (float_tensor [2, 3] [1, 2, 3, 4, 5, 6] False))
   \<and> (\<exists>T'. Index (float_tensor [2, 3] [1, 2, 3, 4, 5, 6] False) 1 = Inr T'
          \<and> Shape T' = [2] \<and> Buffer T' = [3, 4])
   \<and> Index_slices (float_tensor [2, 3] [1, 2, 3, 4, 5, 6] False) 1
   \<and> well_formed (float_tensor [2, 1] [7, 8] False)
   \<and> Shape (float_tensor [2, 1] [7, 8] False) \<noteq> []
   \<and> 0 < last (Shape (float_tensor [2, 1] [7, 8] False))
   \<and> (\<exists>T'. Index (float_tensor [2, 1] [7, 8] False) 0 = Inr T'
          \<and> Shape T' = [2] \<and> Buffer T' = [7, 8])
   \<and> \<not> Index_slices (float_tensor [2, 1] [7, 8] False) 0"
  using Index_drops_last_axis [of "float_tensor [2, 3] [1, 2, 3, 4, 5, 6] False" 1]
        Index_drops_last_axis [of "float_tensor [2, 1] [7, 8] False" 0]
  by (auto simp: float_tensor_def well_formed_def TotalSize_def)

subsection \<open>\<open>MakeEye\<close>\<close>

lemma diag_index_less: "(i::nat) < n \<Longrightarrow> i * n + i < n * n"
proof -
  assume "i < n"
  then have "Suc i \<le> n" by simp
  then have "Suc i * n \<le> n * n" by (rule mult_le_mono1)
  then show ?thesis using \<open>i < n\<close> by simp
qed

lemma MakeEye_fill_ok:
  assumes "n * n < 2 ^ 64"
  shows "length buffer = n * n \<Longrightarrow> \<forall>i \<in> set is. i < n \<Longrightarrow>
     \<exists>b. MakeEye_fill n is buffer = Inr b \<and> length b = n * n
        \<and> (\<forall>k < n * n. b ! k = (if \<exists>i \<in> set is. k = i * n + i then 1 else buffer ! k))"
proof (induction "is" arbitrary: buffer)
  case Nil
  then show ?case by simp
next
  case (Cons i "is")
  have i: "i < n" using Cons.prems(2) by simp
  have k: "i * n + i < n * n" using i by (rule diag_index_less)
  then have md: "(i * n + i) mod 2 ^ 64 = i * n + i"
    using assms by simp
  have len: "length (buffer[i * n + i := 1]) = n * n"
    using Cons.prems(1) by simp
  have rest: "\<forall>j \<in> set is. j < n" using Cons.prems(2) by simp
  obtain b where b: "MakeEye_fill n is (buffer[i * n + i := 1]) = Inr b" "length b = n * n"
      "\<forall>k < n * n. b ! k = (if \<exists>j \<in> set is. k = j * n + j then 1 else (buffer[i * n + i := 1]) ! k)"
    using Cons.IH [OF len rest] by blast
  have "MakeEye_fill n (i # is) buffer = Inr b"
    using b(1) k md Cons.prems(1) by (simp add: Let_def)
  moreover have "\<forall>k < n * n. b ! k = (if \<exists>j \<in> set (i # is). k = j * n + j then 1 else buffer ! k)"
    using b(3) Cons.prems(1) by (auto simp: nth_list_update)
  ultimately show ?case using b(2) by blast
qed

lemma small_square: "(n::nat) < 2 ^ 32 \<Longrightarrow> n * n < 2 ^ 64"
proof -
  assume n: "n < 2 ^ 32"
  have "n * n \<le> n * 2 ^ 32" using n by (intro mult_le_mono) simp_all
  also have "\<dots> < 2 ^ 32 * 2 ^ 32" using n by simp
  finally show ?thesis by simp
qed

lemma diag_position:
  assumes "(k::nat) < n * n"
  shows "(\<exists>i < n. k = i * n + i) \<longleftrightarrow> k mod n = k div n"
proof
  assume "\<exists>i < n. k = i * n + i"
  then obtain i where i: "i < n" "k = i * n + i" by blast
  have "(i * n + i) div n = i" using i(1) by simp
  moreover have "(i * n + i) mod n = i" using i(1) by simp
  ultimately show "k mod n = k div n" using i(2) by simp
next
  assume eq: "k mod n = k div n"
  have n: "0 < n" using assms by (cases n) simp_all
  have "k div n < n" using assms n by (simp add: less_mult_imp_div_less)
  moreover have "k = (k div n) * n + k div n"
    using eq by (metis div_mult_mod_eq)
  ultimately show "\<exists>i < n. k = i * n + i" by blast
qed

lemma MakeEye_identity:
  assumes "n < 2 ^ 32"
  shows "\<exists>buffer. MakeEye_fill n [0 ..< n] (replicate (n * n) 0) = Inr buffer
           \<and> length buffer = n * n
           \<and> (\<forall>k < n * n. buffer ! k = (if \<exists>i < n. k = i * n + i then 1 else 0))
           \<and> MakeEye elementSize n dataType device
               = Inr (DeepClone device (NDArrayView_of_buffer dataType [n, n] buffer
                        ((length buffer * elementSize) mod 2 ^ 64) CPUDevice False))"
proof -
  have sq: "n * n < 2 ^ 64" using assms by (rule small_square)
  obtain b where b: "MakeEye_fill n [0 ..< n] (replicate (n * n) 0) = Inr b" "length b = n * n"
      "\<forall>k < n * n. b ! k = (if \<exists>i \<in> set [0 ..< n]. k = i * n + i then 1 else (replicate (n * n) 0) ! k)"
    using MakeEye_fill_ok [OF sq, of "replicate (n * n) 0" "[0 ..< n]"] by auto
  have "\<forall>k < n * n. b ! k = (if \<exists>i < n. k = i * n + i then 1 else 0)"
    using b(3) by auto
  moreover have "MakeEye elementSize n dataType device
               = Inr (DeepClone device (NDArrayView_of_buffer dataType [n, n] b
                        ((length b * elementSize) mod 2 ^ 64) CPUDevice False))"
    using b(1) sq by (simp add: MakeEye_def Let_def)
  ultimately show ?thesis using b(1,2) by blast
qed

subsection \<open>The map of \<open>Eye\<close>\<close>

lemma MakeEye_device_shape:
  "MakeEye elementSize n dataType device = Inr eye \<Longrightarrow>
     Device eye = device \<and> Shape eye = [n, n] \<and> GetDataType eye = dataType \<and> \<not> IsSparse eye"
  by (auto simp: MakeEye_def DeepClone_def NDArrayView_of_buffer_def Let_def split: sum.splits)

lemma MakeEye_buffer:
  assumes "n < 2 ^ 32" and "MakeEye elementSize n dataType device = Inr eye"
  shows "length (Buffer eye) = n * n
       \<and> (\<forall>k < n * n. Buffer eye ! k = (if k mod n = k div n then 1 else 0))"
proof -
  obtain buffer where b: "length buffer = n * n"
      "\<forall>k < n * n. buffer ! k = (if \<exists>i < n. k = i * n + i then 1 else 0)"
      "MakeEye elementSize n dataType device
               = Inr (DeepClone device (NDArrayView_of_buffer dataType [n, n] buffer
                        ((length buffer * elementSize) mod 2 ^ 64) CPUDevice False))"
    using MakeEye_identity [OF assms(1), of elementSize dataType device] by blast
  have "Buffer eye = buffer"
    using b(3) assms(2) by (auto simp: DeepClone_def NDArrayView_of_buffer_def)
  then show ?thesis
    using b(1,2) diag_position by simp
qed

lemma identity_entry:
  assumes "n < 2 ^ 32" and "MakeEye elementSize n dataType device = Inr eye"
    and "i < n" and "j < n"
  shows "Buffer eye ! (i * n + j) = (if i = j then 1 else 0)"
proof -
  have "Suc i \<le> n" using assms(3) by simp
  then have "Suc i * n \<le> n * n" by (rule mult_le_mono1)
  then have k: "i * n + j < n * n" using assms(4) by simp
  have "(i * n + j) div n = i" using assms(4) by simp
  moreover have "(i * n + j) mod n = j" using assms(4) by simp
  ultimately show ?thesis
    using MakeEye_buffer [OF assms(1,2)] k by auto
qed

lemma Eye_hit: "cached (n, dataType) = Some eye \<Longrightarrow> Eye cached n dataType device = (Inr eye, cached)"
  by (simp add: Eye_def)

lemma Eye_keeps_entries:
  "cached key = Some eye \<Longrightarrow> snd (Eye cached n dataType device) key = Some eye"
  by (auto simp: Eye_def Let_def split: option.splits sum.splits DataType.splits)

lemma Eye_calls_keeps_entries:
  "cached key = Some eye \<Longrightarrow> Eye_calls cached calls key = Some eye"
proof (induction calls arbitrary: cached)
  case Nil
  then show ?case by (simp add: Eye_calls_def)
next
  case (Cons call calls)
  obtain n dataType device where call: "call = (n, dataType, device)"
    by (cases call) auto
  have "snd (Eye cached n dataType device) key = Some eye"
    using Cons.prems by (rule Eye_keeps_entries)
  then have "Eye_calls (snd (Eye cached n dataType device)) calls key = Some eye"
    by (rule Cons.IH)
  then show ?case by (simp add: Eye_calls_def call)
qed

lemma Eye_cache_ok_empty: "Eye_cache_ok Map.empty"
  by (simp add: Eye_cache_ok_def)

lemma Eye_cache_ok_step:
  assumes "Eye_cache_ok cached"
  shows "Eye_cache_ok (snd (Eye cached n dataType device))"
proof (cases "cached (n, dataType)")
  case (Some found)
  then show ?thesis using assms by (simp add: Eye_def)
next
  case None
  show ?thesis
  proof (cases "fst (Eye cached n dataType device)")
    case (Inl e)
    then have "snd (Eye cached n dataType device) = cached"
      using None by (auto simp: Eye_def Let_def split: sum.splits DataType.splits)
    then show ?thesis using assms by simp
  next
    case (Inr eye)
    then have upd: "snd (Eye cached n dataType device) = cached((n, dataType) \<mapsto> eye)"
      and mk: "(dataType = Float \<and> MakeEye 4 n dataType device = Inr eye)
             \<or> (dataType = Double \<and> MakeEye 8 n dataType device = Inr eye)"
      using None by (auto simp: Eye_def Let_def split: sum.splits DataType.splits)
    show ?thesis
      unfolding upd Eye_cache_ok_def
      using assms mk by (auto simp: Eye_cache_ok_def)
  qed
qed

lemma Eye_cache_ok_calls:
  "Eye_cache_ok cached \<Longrightarrow> Eye_cache_ok (Eye_calls cached calls)"
proof (induction calls arbitrary: cached)
  case Nil
  then show ?case by (simp add: Eye_calls_def)
next
  case (Cons call calls)
  obtain n dataType device where call: "call = (n, dataType, device)"
    by (cases call) auto
  have "Eye_cache_ok (snd (Eye cached n dataType device))"
    using Cons.prems by (rule Eye_cache_ok_step)
  then have "Eye_cache_ok (Eye_calls (snd (Eye cached n dataType device)) calls)"
    by (rule Cons.IH)
  then show ?case by (simp add: Eye_calls_def call)
qed

lemma Eye_miss_result:
  assumes "cached (n, dataType) = None" and "Eye cached n dataType device = (Inr eye, cached')"
  shows "cached' = cached((n, dataType) \<mapsto> eye)
       \<and> ((dataType = Float \<and> MakeEye 4 n dataType device = Inr eye)
          \<or> (dataType = Double \<and> MakeEye 8 n dataType device = Inr eye))"
  using assms by (auto simp: Eye_def Let_def split: sum.splits DataType.splits)

lemma Eye_unsupported_miss:
  assumes "Eye_cache_ok cached" and "dataType \<noteq> Float" and "dataType \<noteq> Double"
  shows "Eye cached n dataType device = (Inl UnsupportedTypeError, cached)"
proof -
  have "cached (n, dataType) = None"
  proof (cases "cached (n, dataType)")
    case None then show ?thesis .
  next
    case (Some eye)
    then show ?thesis
      using assms by (auto simp: Eye_cache_ok_def)
  qed
  then show ?thesis
    using assms(2,3) by (cases dataType) (simp_all add: Eye_def)
qed

lemma Eye_supported:
  assumes "Eye_cache_ok cached" and "dataType = Float \<or> dataType = Double" and "n < 2 ^ 32"
  shows "\<exists>eye elementSize d. Eye cached n dataType device = (Inr eye, snd (Eye cached n dataType device))
           \<and> MakeEye elementSize n dataType d = Inr eye"
proof (cases "cached (n, dataType)")
  case (Some found)
  then have "\<exists>elementSize d. MakeEye elementSize n dataType d = Inr found"
    using assms(1) unfolding Eye_cache_ok_def by blast
  then show ?thesis using Some by (auto simp: Eye_def)
next
  case None
  from assms(2) show ?thesis
  proof
    assume dt: "dataType = Float"
    obtain b where "MakeEye 4 n dataType device = Inr b"
      using MakeEye_identity [OF assms(3), of 4 dataType device] by blast
    then show ?thesis using None dt by (auto simp: Eye_def)
  next
    assume dt: "dataType = Double"
    obtain b where "MakeEye 8 n dataType device = Inr b"
      using MakeEye_identity [OF assms(3), of 8 dataType device] by blast
    then show ?thesis using None dt by (auto simp: Eye_def)
  qed
qed

text \<open>The identity matrix of dimension 2, evaluated.\<close>

lemma MakeEye_fill_2: "MakeEye_fill 2 [0 ..< 2] (replicate (2 * 2 mod 2 ^ 64) 0) = Inr [1, 0, 0, 1]"
proof -
  have "(2 * 2 mod 2 ^ 64 :: nat) = 4" by simp
  moreover have "replicate 4 (0::rat) = [0, 0, 0, 0]" by (simp add: numeral_eq_Suc)
  moreover have "[0 ..< 2] = [0, 1::nat]" by (simp add: upt_rec)
  moreover have "MakeEye_fill 2 [0, 1] [0, 0, 0, 0] = Inr [1, 0, 0, 1]" by simp
  ultimately show ?thesis by simp
qed

lemma Eye_2:
  "Eye Map.empty 2 Float device
     = (Inr \<lparr>Shape = [2, 2], Buffer = [1, 0, 0, 1], IsSparse = False,
               GetDataType = Float, Device = device, IsReadOnly = False\<rparr>,
        [(2, Float) \<mapsto> \<lparr>Shape = [2, 2], Buffer = [1, 0, 0, 1], IsSparse = False,
               GetDataType = Float, Device = device, IsReadOnly = False\<rparr>])"
  using MakeEye_fill_2
  by (simp add: Eye_def MakeEye_def DeepClone_def NDArrayView_of_buffer_def)

text \<open>
  C5. On a miss with a supported data type (and \<open>n\<close> below \<open>2 ^ 32\<close>, so that \<open>n*n\<close>
  is exact in \<open>size_t\<close>), the loop of \<open>MakeEye\<close> turns the zero-filled buffer of \<open>n*n\<close>
  elements into one that holds 1 at the positions \<open>i*n + i\<close>, \<open>i < n\<close>, and 0 elsewhere;
  the tensor is built from it on the CPU device, cloned to the requested device, and
  the clone is both returned and stored under \<open>(n, dataType)\<close>.
\<close>

theorem Eye_miss_builds_identity:
  assumes "cached (n, dataType) = None" and "dataType = Float \<or> dataType = Double" and "n < 2 ^ 32"
  shows "\<exists>buffer bytes.
           MakeEye_fill n [0 ..< n] (replicate (n * n) 0) = Inr buffer
         \<and> length buffer = n * n
         \<and> (\<forall>k < n * n. buffer ! k = (if \<exists>i < n. k = i * n + i then 1 else 0))
         \<and> Eye cached n dataType device
             = (Inr (DeepClone device (NDArrayView_of_buffer dataType [n, n] buffer bytes CPUDevice False)),
                cached((n, dataType) \<mapsto>
                  DeepClone device (NDArrayView_of_buffer dataType [n, n] buffer bytes CPUDevice False)))
         \<and> Device (NDArrayView_of_buffer dataType [n, n] buffer bytes CPUDevice False) = CPUDevice
         \<and> Device (DeepClone device (NDArrayView_of_buffer dataType [n, n] buffer bytes CPUDevice False)) = device"
proof -
  from assms(2) show ?thesis
  proof
    assume dt: "dataType = Float"
    obtain buffer where b: "MakeEye_fill n [0 ..< n] (replicate (n * n) 0) = Inr buffer"
        "length buffer = n * n"
        "\<forall>k < n * n. buffer ! k = (if \<exists>i < n. k = i * n + i then 1 else 0)"
        "MakeEye 4 n dataType device
               = Inr (DeepClone device (NDArrayView_of_buffer dataType [n, n] buffer
                        ((length buffer * 4) mod 2 ^ 64) CPUDevice False))"
      using MakeEye_identity [OF assms(3), of 4 dataType device] by blast
    have "Eye cached n dataType device
             = (Inr (DeepClone device (NDArrayView_of_buffer dataType [n, n] buffer ((length buffer * 4) mod 2 ^ 64) CPUDevice False)),
                cached((n, dataType) \<mapsto>
                  DeepClone device (NDArrayView_of_buffer dataType [n, n] buffer ((length buffer * 4) mod 2 ^ 64) CPUDevice False)))"
      using assms(1) b(4) dt by (simp add: Eye_def Let_def)
    then show ?thesis
      using b(1,2,3) by (intro exI [of _ buffer] exI [of _ "(length buffer * 4) mod 2 ^ 64"])
        (simp add: DeepClone_def NDArrayView_of_buffer_def)
  next
    assume dt: "dataType = Double"
    obtain buffer where b: "MakeEye_fill n [0 ..< n] (replicate (n * n) 0) = Inr buffer"
        "length buffer = n * n"
        "\<forall>k < n * n. buffer ! k = (if \<exists>i < n. k = i * n + i then 1 else 0)"
        "MakeEye 8 n dataType device
               = Inr (DeepClone device (NDArrayView_of_buffer dataType [n, n] buffer
                        ((length buffer * 8) mod 2 ^ 64) CPUDevice False))"
      using MakeEye_identity [OF assms(3), of 8 dataType device] by blast
    have "Eye cached n dataType device
             = (Inr (DeepClone device (NDArrayView_of_buffer dataType [n, n] buffer ((length buffer * 8) mod 2 ^ 64) CPUDevice False)),
                cached((n, dataType) \<mapsto>
                  DeepClone device (NDArrayView_of_buffer dataType [n, n] buffer ((length buffer * 8) mod 2 ^ 64) CPUDevice False)))"
      using assms(1) b(4) dt by (simp add: Eye_def Let_def)
    then show ?thesis
      using b(1,2,3) by (intro exI [of _ buffer] exI [of _ "(length buffer * 8) mod 2 ^ 64"])
        (simp add: DeepClone_def NDArrayView_of_buffer_def)
  qed
qed

theorem Eye_miss_builds_identity_witness:
  "(Map.empty :: Eye_cache) (2, Float) = None \<and> (Float = Float \<or> Float = Double) \<and> (2::nat) < 2 ^ 32
   \<and> fst (Eye Map.empty 2 Float (GPUDevice 0))
       = Inr \<lparr>Shape = [2, 2], Buffer = [1, 0, 0, 1], IsSparse = False,
               GetDataType = Float, Device = GPUDevice 0, IsReadOnly = False\<rparr>"
  using Eye_miss_builds_identity [of Map.empty 2 Float "GPUDevice 0"] Eye_2 [of "GPUDevice 0"]
  by simp

text \<open>
  C4. Once a call \<open>Eye(n, dataType, d1)\<close> has missed and stored its tensor, every later
  call for \<open>(n, dataType)\<close>, after any further calls of \<open>Eye\<close> and for any device \<open>d2\<close>,
  returns that very tensor and leaves the map as it is. The tensor still lives on \<open>d1\<close>;
  it is \<open>n\<close> by \<open>n\<close>, with 1 on the diagonal and 0 elsewhere (for \<open>n\<close> below \<open>2 ^ 32\<close>).
\<close>

theorem Eye_hit_returns_stored:
  assumes "cached (n, dataType) = None" and "Eye cached n dataType d1 = (Inr eye, cached1)"
  shows "Eye (Eye_calls cached1 calls) n dataType d2 = (Inr eye, Eye_calls cached1 calls)
       \<and> Device eye = d1
       \<and> Shape eye = [n, n]
       \<and> (n < 2 ^ 32 \<longrightarrow> length (Buffer eye) = n * n
            \<and> (\<forall>i < n. \<forall>j < n. Buffer eye ! (i * n + j) = (if i = j then 1 else 0)))"
proof -
  have res: "cached1 = cached((n, dataType) \<mapsto> eye)"
    and mk: "(dataType = Float \<and> MakeEye 4 n dataType d1 = Inr eye)
          \<or> (dataType = Double \<and> MakeEye 8 n dataType d1 = Inr eye)"
    using Eye_miss_result [OF assms] by simp_all
  have "cached1 (n, dataType) = Some eye" using res by simp
  then have "Eye_calls cached1 calls (n, dataType) = Some eye"
    by (rule Eye_calls_keeps_entries)
  then have hit: "Eye (Eye_calls cached1 calls) n dataType d2 = (Inr eye, Eye_calls cached1 calls)"
    by (rule Eye_hit)
  obtain elementSize where m: "MakeEye elementSize n dataType d1 = Inr eye"
    using mk by blast
  have dev: "Device eye = d1 \<and> Shape eye = [n, n]"
    using MakeEye_device_shape [OF m] by simp
  have "n < 2 ^ 32 \<longrightarrow> length (Buffer eye) = n * n
            \<and> (\<forall>i < n. \<forall>j < n. Buffer eye ! (i * n + j) = (if i = j then 1 else 0))"
    using MakeEye_buffer [OF _ m] identity_entry [OF _ m] by blast
  then show ?thesis using hit dev by blast
qed

theorem Eye_hit_returns_stored_witness:
  "(Map.empty :: Eye_cache) (2, Float) = None
   \<and> (\<exists>eye cached1.
         Eye Map.empty 2 Float (GPUDevice 0) = (Inr eye, cached1)
       \<and> Eye (Eye_calls cached1 [(3, Double, CPUDevice)]) 2 Float CPUDevice
           = (Inr eye, Eye_calls cached1 [(3, Double, CPUDevice)])
       \<and> Device eye = GPUDevice 0
       \<and> Buffer eye = [1, 0, 0, 1])"
proof -
  let ?eye = "\<lparr>Shape = [2, 2], Buffer = [1, 0, 0, 1], IsSparse = False,
               GetDataType = Float, Device = GPUDevice 0, IsReadOnly = False\<rparr>"
  have first: "Eye Map.empty 2 Float (GPUDevice 0) = (Inr ?eye, [(2, Float) \<mapsto> ?eye])"
    by (rule Eye_2)
  have "Eye (Eye_calls [(2, Float) \<mapsto> ?eye] [(3, Double, CPUDevice)]) 2 Float CPUDevice
           = (Inr ?eye, Eye_calls [(2, Float) \<mapsto> ?eye] [(3, Double, CPUDevice)])"
    using Eye_hit_returns_stored [OF _ first, of "[(3, Double, CPUDevice)]" CPUDevice] by simp
  then show ?thesis using first by simp
qed

text \<open>
  C8. On the map of a running program (any calls made so far), \<open>Eye\<close> returns a tensor
  for \<open>Float\<close> and for \<open>Double\<close> (for \<open>n\<close> below \<open>2 ^ 32\<close>), and for every other data
  type it fails with \<open>UnsupportedTypeError\<close> and leaves the map alone. The conversion
  of a sparse tensor of such a type fails with the same error: nothing catches it.
\<close>

theorem Eye_supported_types:
  "(dataType = Float \<or> dataType = Double \<longrightarrow> n < 2 ^ 32 \<longrightarrow>
      (\<exists>eye. fst (Eye (Eye_calls Map.empty calls) n dataType device) = Inr eye))
   \<and> (dataType \<noteq> Float \<and> dataType \<noteq> Double \<longrightarrow>
        Eye (Eye_calls Map.empty calls) n dataType device
          = (Inl UnsupportedTypeError, Eye_calls Map.empty calls)
      \<and> (\<forall>data rest. IsSparse data \<and> Shape data = n # rest \<and> GetDataType data = dataType \<longrightarrow>
            densify (Eye_calls Map.empty calls) data
              = (Inl UnsupportedTypeError, Eye_calls Map.empty calls)))"
proof -
  have ok: "Eye_cache_ok (Eye_calls Map.empty calls)"
    using Eye_cache_ok_empty by (rule Eye_cache_ok_calls)
  have "\<exists>eye. fst (Eye (Eye_calls Map.empty calls) n dataType device) = Inr eye"
    if "dataType = Float \<or> dataType = Double" and "n < 2 ^ 32"
    using Eye_supported [OF ok that, of device] by (metis fst_conv)
  moreover have un: "Eye (Eye_calls Map.empty calls) n dataType d
          = (Inl UnsupportedTypeError, Eye_calls Map.empty calls)"
    if "dataType \<noteq> Float \<and> dataType \<noteq> Double" for d
    using Eye_unsupported_miss [OF ok] that by blast
  moreover have "densify (Eye_calls Map.empty calls) data
              = (Inl UnsupportedTypeError, Eye_calls Map.empty calls)"
    if "dataType \<noteq> Float \<and> dataType \<noteq> Double"
      and "IsSparse data \<and> Shape data = n # rest \<and> GetDataType data = dataType" for data rest
    using un [OF that(1)] that(2) by (simp add: densify_def)
  ultimately show ?thesis by blast
qed

theorem Eye_supported_types_witness:
  "(\<exists>eye. fst (Eye (Eye_calls Map.empty [(2, Float, CPUDevice)]) 3 Double (GPUDevice 1)) = Inr eye)
   \<and> Eye (Eye_calls Map.empty [(2, Float, CPUDevice)]) 3 (OtherDataType 3) (GPUDevice 1)
       = (Inl UnsupportedTypeError, Eye_calls Map.empty [(2, Float, CPUDevice)])
   \<and> IsSparse ((float_tensor [3] [1, 2, 3] True)\<lparr>GetDataType := OtherDataType 3\<rparr>)
   \<and> densify (Eye_calls Map.empty [(2, Float, CPUDevice)])
         ((float_tensor [3] [1, 2, 3] True)\<lparr>GetDataType := OtherDataType 3\<rparr>)
       = (Inl UnsupportedTypeError, Eye_calls Map.empty [(2, Float, CPUDevice)])"
  using Eye_supported_types [of Double 3 "[(2, Float, CPUDevice)]" "GPUDevice 1"]
        Eye_supported_types [of "OtherDataType 3" 3 "[(2, Float, CPUDevice)]" "GPUDevice 1"]
  by (simp add: float_tensor_def)

subsection \<open>Densification\<close>

lemma sum_list_single:
  fixes f :: "nat \<Rightarrow> rat"
  assumes "a < n"
  shows "(\<Sum>l \<leftarrow> [0 ..< n]. (if l = a then 1 else 0) * f l) = f a"
proof -
  have "(\<Sum>l \<leftarrow> [0 ..< n]. (if l = a then 1 else 0) * f l)
        = (\<Sum>l = 0 ..< n. (if l = a then 1 else 0) * f l)"
    by (simp add: interv_sum_list_conv_sum_set_nat)
  also have "\<dots> = (\<Sum>l = 0 ..< n. if l = a then f l else 0)"
    by (intro sum.cong) auto
  also have "\<dots> = f a"
    using assms by simp
  finally show ?thesis .
qed

lemma identity_product_elements:
  assumes len: "length b = n * cols"
    and eye: "\<forall>k < n * n. a ! k = (if k mod n = k div n then 1 else 0)"
  shows "product_elements n n cols 1 a b = b"
proof (rule nth_equalityI)
  show "length (product_elements n n cols 1 a b) = length b"
    using len by (simp add: product_elements_def)
next
  fix c assume "c < length (product_elements n n cols 1 a b)"
  then have c: "c < n * cols" by (simp add: product_elements_def)
  then have n: "0 < n" by (cases n) simp_all
  have r: "c mod n < n" using n by simp
  have entry: "a ! (c mod n + n * l) = (if l = c mod n then 1 else 0)" if "l < n" for l
  proof -
    have "Suc l \<le> n" using that by simp
    then have "n * Suc l \<le> n * n" by (rule mult_le_mono2)
    then have k: "c mod n + n * l < n * n" using r by simp
    have "(c mod n + n * l) mod n = c mod n" by simp
    moreover have "(c mod n + n * l) div n = l" using n by simp
    ultimately show ?thesis using eye k by auto
  qed
  have "(\<Sum>l \<leftarrow> [0 ..< n]. a ! (c mod n + n * l) * b ! (l + n * (c div n)))
        = (\<Sum>l \<leftarrow> [0 ..< n]. (if l = c mod n then 1 else 0) * b ! (l + n * (c div n)))"
    using entry by (intro arg_cong [where f = sum_list] map_cong) simp_all
  also have "\<dots> = b ! (c mod n + n * (c div n))"
    using r by (rule sum_list_single)
  also have "\<dots> = b ! c"
    by (simp add: add.commute)
  finally show "product_elements n n cols 1 a b ! c = b ! c"
    using c by (simp add: product_elements_def)
qed

lemma MatrixProduct_identity:
  assumes "Shape eye = [n, n]"
    and "\<forall>k < n * n. Buffer eye ! k = (if k mod n = k div n then 1 else 0)"
    and "Shape X = n # rest" and "well_formed X"
  shows "MatrixProduct False eye False X False 1 1
         = Inr \<lparr>Shape = Shape X, Buffer = Buffer X, IsSparse = False,
                GetDataType = GetDataType X, Device = Device X, IsReadOnly = False\<rparr>"
proof -
  have len: "length (Buffer X) = n * TotalSize rest"
    using assms(3,4) by (simp add: well_formed_def TotalSize_def)
  have "product_elements n n (TotalSize rest) 1 (Buffer eye) (Buffer X) = Buffer X"
    using len assms(2) by (rule identity_product_elements)
  then show ?thesis
    by (simp add: MatrixProduct_def assms(1,3) TotalSize_def Let_def)
qed

lemma densify_sparse:
  assumes ok: "Eye_cache_ok cached"
    and "IsSparse X" and sh: "Shape X = n # rest" and wf: "well_formed X"
    and dt: "GetDataType X = Float \<or> GetDataType X = Double" and n: "n < 2 ^ 32"
  shows "\<exists>eye cached'.
           Eye cached n (GetDataType X) (Device X) = (Inr eye, cached')
         \<and> Eye_cache_ok cached'
         \<and> Shape eye = [n, n]
         \<and> (\<forall>i < n. \<forall>j < n. Buffer eye ! (i * n + j) = (if i = j then 1 else 0))
         \<and> densify cached X = (MatrixProduct False eye False X False 1 1, cached')
         \<and> MatrixProduct False eye False X False 1 1 
             = Inr \<lparr>Shape = Shape X, Buffer = Buffer X, IsSparse = False,
                GetDataType = GetDataType X, Device = Device X, IsReadOnly = False\<rparr>"
proof -
  obtain eye elementSize d where
      e: "Eye cached n (GetDataType X) (Device X) = (Inr eye, snd (Eye cached n (GetDataType X) (Device X)))"
      and mk: "MakeEye elementSize n (GetDataType X) d = Inr eye"
    using Eye_supported [OF ok dt n, of "Device X"] by blast
  define cached' where "cached' = snd (Eye cached n (GetDataType X) (Device X))"
  have e': "Eye cached n (GetDataType X) (Device X) = (Inr eye, cached')"
    using e by (simp add: cached'_def)
  have ok': "Eye_cache_ok cached'"
    unfolding cached'_def using ok by (rule Eye_cache_ok_step)
  have shape: "Shape eye = [n, n]"
    using MakeEye_device_shape [OF mk] by simp
  have buf: "\<forall>k < n * n. Buffer eye ! k = (if k mod n = k div n then 1 else 0)"
    using MakeEye_buffer [OF n mk] by simp
  have ident: "\<forall>i < n. \<forall>j < n. Buffer eye ! (i * n + j) = (if i = j then 1 else 0)"
    using identity_entry [OF n mk] by blast
  have prod: "MatrixProduct False eye False X False 1 1 
             = Inr \<lparr>Shape = Shape X, Buffer = Buffer X, IsSparse = False,
                GetDataType = GetDataType X, Device = Device X, IsReadOnly = False\<rparr>"
    using shape buf sh wf by (rule MatrixProduct_identity)
  have "densify cached X = (MatrixProduct False eye False X False 1 1, cached')"
    using assms(2) sh e' by (simp add: densify_def)
  then show ?thesis
    using e' ok' shape ident prod by blast
qed

text \<open>
  C6. A sparse, well-formed tensor \<open>X\<close> of shape \<open>n # rest\<close> and a supported data type is
  replaced by \<open>MatrixProduct False eye False X False 1 1\<close>, where \<open>eye\<close> is what \<open>Eye\<close>
  returns for the leading dimension \<open>n\<close>: the \<open>n\<close> by \<open>n\<close> identity. The product is dense
  and has the shape and the elements of \<open>X\<close>. Element values are exact (rationals), as
  finite floating-point values are under multiplication by 0 and 1.
\<close>

theorem densify_is_identity_product:
  assumes "IsSparse X" and "Shape X = n # rest" and "well_formed X"
    and "GetDataType X = Float \<or> GetDataType X = Double" and "n < 2 ^ 32"
  shows "\<exists>eye cached' P.
           Eye (Eye_calls Map.empty calls) n (GetDataType X) (Device X) = (Inr eye, cached')
         \<and> Shape eye = [n, n]
         \<and> (\<forall>i < n. \<forall>j < n. Buffer eye ! (i * n + j) = (if i = j then 1 else 0))
         \<and> densify (Eye_calls Map.empty calls) X = (MatrixProduct False eye False X False 1 1, cached')
         \<and> MatrixProduct False eye False X False 1 1 = Inr P
         \<and> Shape P = Shape X \<and> Buffer P = Buffer X \<and> \<not> IsSparse P
         \<and> convert_sequence True (Eye_calls Map.empty calls) X = (Inr (Constant P), cached')"
proof -
  have ok: "Eye_cache_ok (Eye_calls Map.empty calls)"
    using Eye_cache_ok_empty by (rule Eye_cache_ok_calls)
  obtain eye cached' where
      e: "Eye (Eye_calls Map.empty calls) n (GetDataType X) (Device X) = (Inr eye, cached')"
      and sh: "Shape eye = [n, n]"
      and ident: "\<forall>i < n. \<forall>j < n. Buffer eye ! (i * n + j) = (if i = j then 1 else 0)"
      and d: "densify (Eye_calls Map.empty calls) X = (MatrixProduct False eye False X False 1 1, cached')"
      and p: "MatrixProduct False eye False X False 1 1 
             = Inr \<lparr>Shape = Shape X, Buffer = Buffer X, IsSparse = False,
                GetDataType = GetDataType X, Device = Device X, IsReadOnly = False\<rparr>"
    using densify_sparse [OF ok assms] by blast
  have "convert_sequence True (Eye_calls Map.empty calls) X
          = (Inr (Constant \<lparr>Shape = Shape X, Buffer = Buffer X, IsSparse = False,
                GetDataType = GetDataType X, Device = Device X, IsReadOnly = False\<rparr>), cached')"
    using d p by (simp add: convert_sequence_def drop_sample_axis_def)
  then show ?thesis
    using e sh ident d p by auto
qed

theorem densify_is_identity_product_witness:
  "IsSparse (float_tensor [2, 3] [1, 2, 3, 4, 5, 6] True)
   \<and> Shape (float_tensor [2, 3] [1, 2, 3, 4, 5, 6] True) = 2 # [3]
   \<and> well_formed (float_tensor [2, 3] [1, 2, 3, 4, 5, 6] True)
   \<and> (GetDataType (float_tensor [2, 3] [1, 2, 3, 4, 5, 6] True) = Float
        \<or> GetDataType (float_tensor [2, 3] [1, 2, 3, 4, 5, 6] True) = Double)
   \<and> (2::nat) < 2 ^ 32
   \<and> (\<exists>P cached'. densify (Eye_calls Map.empty []) (float_tensor [2, 3] [1, 2, 3, 4, 5, 6] True)
         = (Inr P, cached')
        \<and> Shape P = [2, 3] \<and> Buffer P = [1, 2, 3, 4, 5, 6] \<and> \<not> IsSparse P)"
  using densify_is_identity_product [of "float_tensor [2, 3] [1, 2, 3, 4, 5, 6] True" 2 "[3]" "[]"]
  by (auto simp: float_tensor_def well_formed_def TotalSize_def)

subsection \<open>One sequence\<close>

lemma Eye_result_stored:
  "Eye cached n dataType device = (Inr eye, cached') \<Longrightarrow> cached' (n, dataType) = Some eye"
  by (auto simp: Eye_def Let_def split: option.splits sum.splits DataType.splits)

lemma Eye_result_shape:
  assumes "Eye_cache_ok cached" and "Eye cached n dataType device = (Inr eye, cached')"
  shows "Shape eye = [n, n] \<and> Eye_cache_ok cached'"
proof -
  have ok': "Eye_cache_ok cached'"
    using Eye_cache_ok_step [OF assms(1), of n dataType device] assms(2) by simp
  have "cached' (n, dataType) = Some eye"
    using assms(2) by (rule Eye_result_stored)
  then obtain elementSize d where "MakeEye elementSize n dataType d = Inr eye"
    using ok' unfolding Eye_cache_ok_def by blast
  then show ?thesis
    using MakeEye_device_shape ok' by blast
qed

lemma Eye_cache_ok_result:
  "Eye_cache_ok cached \<Longrightarrow> Eye cached n dataType device = (r, cached') \<Longrightarrow> Eye_cache_ok cached'"
  using Eye_cache_ok_step [of cached n dataType device] by simp

lemma densify_ok:
  "Eye_cache_ok cached \<Longrightarrow> densify cached data = (r, cached') \<Longrightarrow> Eye_cache_ok cached'"
  by (auto simp: densify_def dest: Eye_cache_ok_result split: list.splits prod.splits sum.splits if_splits)

lemma densify_result:
  assumes "Eye_cache_ok cached" and "densify cached data = (Inr dense, cached')"
  shows "Shape dense = Shape data \<and> \<not> IsSparse dense"
proof (cases "IsSparse data")
  case False
  then show ?thesis using assms(2) by (auto simp: densify_def)
next
  case True
  then obtain n rest eye where sh: "Shape data = n # rest"
    and e: "Eye cached n (GetDataType data) (Device data) = (Inr eye, cached')"
    and p: "MatrixProduct False eye False data False 1 1 = Inr dense"
    using assms(2) by (auto simp: densify_def split: list.splits prod.splits sum.splits)
  have "Shape eye = [n, n]"
    using Eye_result_shape [OF assms(1) e] by simp
  then show ?thesis
    using p sh by (auto simp: MatrixProduct_def Let_def split: if_splits)
qed

lemma drop_sample_axis_result:
  assumes "drop_sample_axis hasAxis data = Inr data'"
  shows "(if hasAxis then data' = data
          else Shape data \<noteq> [] \<and> last (Shape data) = 1 \<and> Index data 0 = Inr data'
               \<and> data' = data\<lparr>Shape := butlast (Shape data)\<rparr>)"
proof (cases hasAxis)
  case True
  then show ?thesis using assms by (simp add: drop_sample_axis_def)
next
  case False
  then have ne: "Shape data \<noteq> []" and one: "last (Shape data) = 1" and ix: "Index data 0 = Inr data'"
    using assms by (auto simp: drop_sample_axis_def split: if_splits)
  have "\<not> Index_slices data 0"
    using ne one by (simp add: Index_slices_iff)
  then have "AsShape (butlast (Shape data)) data = Inr data'"
    using ix ne by (simp add: Index_def Let_def)
  then have "data' = data\<lparr>Shape := butlast (Shape data)\<rparr>"
    by (auto simp: AsShape_def split: if_splits)
  then show ?thesis using False ne one ix by simp
qed

lemma drop_sample_axis_one:
  assumes "Shape data \<noteq> []" and "last (Shape data) = 1"
  shows "drop_sample_axis False data = Inr (data\<lparr>Shape := butlast (Shape data)\<rparr>)"
proof -
  obtain ds where sh: "Shape data = ds @ [1]"
    using assms by (metis append_butlast_last_id)
  have "\<not> Index_slices data 0"
    using assms by (simp add: Index_slices_iff)
  then have "Index data 0 = AsShape (butlast (Shape data)) data"
    using assms(1) by (simp add: Index_def Let_def)
  also have "\<dots> = Inr (data\<lparr>Shape := butlast (Shape data)\<rparr>)"
    by (simp add: AsShape_def sh TotalSize_snoc)
  finally show ?thesis using assms by (simp add: drop_sample_axis_def)
qed

lemma convert_sequence_ok:
  "Eye_cache_ok cached \<Longrightarrow> convert_sequence hasAxis cached data = (r, cached')
     \<Longrightarrow> Eye_cache_ok cached'"
  by (auto simp: convert_sequence_def dest: densify_ok split: sum.splits prod.splits)

lemma convert_sequence_result:
  assumes "Eye_cache_ok cached" and "convert_sequence hasAxis cached data = (Inr v, cached')"
  shows "\<exists>dense. v = Constant dense \<and> \<not> IsSparse dense
           \<and> Shape dense = (if hasAxis then Shape data else butlast (Shape data))
           \<and> (hasAxis \<or> (Shape data \<noteq> [] \<and> last (Shape data) = 1))"
proof -
  obtain data' dense where d: "drop_sample_axis hasAxis data = Inr data'"
    and e: "densify cached data' = (Inr dense, cached')" and v: "v = Constant dense"
    using assms(2) by (auto simp: convert_sequence_def split: sum.splits prod.splits)
  have "Shape dense = Shape data' \<and> \<not> IsSparse dense"
    using assms(1) e by (rule densify_result)
  moreover have "Shape data' = (if hasAxis then Shape data else butlast (Shape data))"
    and "hasAxis \<or> (Shape data \<noteq> [] \<and> last (Shape data) = 1)"
    using drop_sample_axis_result [OF d] by (auto split: if_splits)
  ultimately show ?thesis using v by simp
qed

lemma convert_sequence_malformed:
  assumes "Shape data \<noteq> []" and "last (Shape data) \<noteq> 1"
  shows "convert_sequence False cached data = (Inl MalformedStreamError, cached)"
  using assms by (simp add: convert_sequence_def drop_sample_axis_def)

lemma MakeEye_fill_error: "MakeEye_fill n is buffer = Inl e \<Longrightarrow> e = OutOfRange"
  by (induction "is" arbitrary: buffer) (auto simp: Let_def split: if_splits)

lemma convert_sequence_no_mismatch:
  "convert_sequence hasAxis cached data = (Inl e, cached') \<Longrightarrow> e \<noteq> BatchShapeMismatchError"
  by (auto simp: convert_sequence_def drop_sample_axis_def densify_def Index_def SliceView_def
        AsShape_def Eye_def MakeEye_def MatrixProduct_def Let_def
      dest: MakeEye_fill_error
      split: sum.splits prod.splits if_splits list.splits option.splits DataType.splits)

lemma convertible_converts:
  assumes ok: "Eye_cache_ok cached" and c: "convertible hasAxis data"
  shows "\<exists>v cached'. convert_sequence hasAxis cached data = (Inr v, cached')"
proof -
  define dims where "dims = (if hasAxis then Shape data else butlast (Shape data))"
  obtain data' where d: "drop_sample_axis hasAxis data = Inr data'"
    and sh: "Shape data' = dims" and sp: "IsSparse data' = IsSparse data"
    and dt: "GetDataType data' = GetDataType data"
  proof (cases hasAxis)
    case True
    then show ?thesis using that [of data] by (simp add: drop_sample_axis_def dims_def)
  next
    case False
    then have "Shape data \<noteq> []" "last (Shape data) = 1"
      using c by (auto simp: convertible_def)
    then show ?thesis
      using that [of "data\<lparr>Shape := butlast (Shape data)\<rparr>"] False drop_sample_axis_one
      by (simp add: dims_def)
  qed
  have "\<exists>dense cached'. densify cached data' = (Inr dense, cached')"
  proof (cases "IsSparse data")
    case False
    then show ?thesis using sp by (simp add: densify_def)
  next
    case True
    then have ne: "dims \<noteq> []" and small: "hd dims < 2 ^ 32"
      and sup: "GetDataType data = Float \<or> GetDataType data = Double"
      using c by (auto simp: convertible_def dims_def Let_def split: if_splits)
    obtain n rest where nr: "Shape data' = n # rest"
      using ne sh by (cases dims) auto
    have "dims = n # rest" using sh nr by simp
    then have n: "n < 2 ^ 32" using small by simp
    obtain eye elementSize dv where
      e: "Eye cached n (GetDataType data') (Device data')
            = (Inr eye, snd (Eye cached n (GetDataType data') (Device data')))"
      and mk: "MakeEye elementSize n (GetDataType data') dv = Inr eye"
      using Eye_supported [OF ok _ n, of "GetDataType data'" "Device data'"] sup dt by auto
    have shape: "Shape eye = [n, n]"
      using MakeEye_device_shape [OF mk] by simp
    obtain P where "MatrixProduct False eye False data' False 1 1 = Inr P"
      using shape nr by (simp add: MatrixProduct_def Let_def TotalSize_def)
    moreover obtain cached' where "Eye cached n (GetDataType data') (Device data') = (Inr eye, cached')"
      using e by blast
    ultimately show ?thesis
      using True sp nr by (simp add: densify_def)
  qed
  then show ?thesis
    using d by (auto simp: convert_sequence_def)
qed

subsection \<open>The inner loop\<close>

lemma sequences_loop_result:
  assumes "n \<le> length sequences" and "n \<le> length arg" and "Eye_cache_ok cached"
    and "sequences_loop hasAxis sequences [s0 ..< n] arg cached = (failure, arg', cached')"
  shows "length arg' = length arg \<and> Eye_cache_ok cached'
       \<and> (\<forall>t < s0. arg' ! t = arg ! t)
       \<and> (case failure of
            None \<Rightarrow>
              (\<forall>t. s0 \<le> t \<and> t < n \<longrightarrow>
                 (\<exists>c0 c1. Eye_cache_ok c0
                    \<and> convert_sequence hasAxis c0 (sequences ! t) = (Inr (arg' ! t), c1)))
          | Some e \<Rightarrow>
              (\<exists>s. s0 \<le> s \<and> s < n
                 \<and> (\<exists>c0 c1. Eye_cache_ok c0
                       \<and> convert_sequence hasAxis c0 (sequences ! s) = (Inl e, c1))
                 \<and> (\<forall>t. s0 \<le> t \<and> t < s \<longrightarrow>
                       (\<exists>c0 c1. Eye_cache_ok c0
                          \<and> convert_sequence hasAxis c0 (sequences ! t) = (Inr (arg' ! t), c1)))
                 \<and> (\<forall>t \<ge> s. arg' ! t = arg ! t)))"
  using assms
proof (induction "n - s0" arbitrary: s0 arg cached)
  case 0
  then have e: "[s0 ..< n] = []" by simp
  have "failure = None" "arg' = arg" "cached' = cached"
    using "0.prems"(4) unfolding e by simp_all
  then show ?case using "0.prems"(3) "0.hyps" by auto
next
  case (Suc k)
  then have lt: "s0 < n" by simp
  then have upt: "[s0 ..< n] = s0 # [Suc s0 ..< n]" by (simp add: upt_conv_Cons)
  have inr: "s0 < length sequences" "s0 < length arg"
    using lt Suc.prems(1,2) by simp_all
  obtain r c1 where conv: "convert_sequence hasAxis cached (sequences ! s0) = (r, c1)"
    by (cases "convert_sequence hasAxis cached (sequences ! s0)") auto
  have ok1: "Eye_cache_ok c1"
    using Suc.prems(3) conv by (rule convert_sequence_ok)
  show ?case
  proof (cases r)
    case (Inl e)
    then have res: "failure = Some e" "arg' = arg" "cached' = c1"
      using Suc.prems(4) upt conv inr by simp_all
    have "\<exists>c0 c1. Eye_cache_ok c0 \<and> convert_sequence hasAxis c0 (sequences ! s0) = (Inl e, c1)"
      using Suc.prems(3) conv Inl by blast
    then show ?thesis
      using res ok1 lt by (auto intro!: exI [of _ s0])
  next
    case (Inr v)
    then have rec: "sequences_loop hasAxis sequences [Suc s0 ..< n] (arg[s0 := v]) c1
        = (failure, arg', cached')"
      using Suc.prems(4) upt conv inr by simp
    have k: "k = n - Suc s0" using Suc.hyps(2) by simp
    have len: "n \<le> length (arg[s0 := v])" using Suc.prems(2) by simp
    note IH = Suc.hyps(1) [OF k Suc.prems(1) len ok1 rec]
    have here: "arg' ! s0 = v"
      using IH inr by simp
    have first: "\<exists>c0 c1. Eye_cache_ok c0
        \<and> convert_sequence hasAxis c0 (sequences ! s0) = (Inr (arg' ! s0), c1)"
      using Suc.prems(3) conv Inr here by blast
    have before: "\<forall>t < s0. arg' ! t = arg ! t"
      using IH by simp
    show ?thesis
    proof (cases failure)
      case None
      have "\<forall>t. s0 \<le> t \<and> t < n \<longrightarrow>
                 (\<exists>c0 c1. Eye_cache_ok c0
                    \<and> convert_sequence hasAxis c0 (sequences ! t) = (Inr (arg' ! t), c1))"
      proof (intro allI impI)
        fix t assume t: "s0 \<le> t \<and> t < n"
        show "\<exists>c0 c1. Eye_cache_ok c0
                    \<and> convert_sequence hasAxis c0 (sequences ! t) = (Inr (arg' ! t), c1)"
        proof (cases "t = s0")
          case True then show ?thesis using first by simp
        next
          case False
          then have "Suc s0 \<le> t \<and> t < n" using t by simp
          then show ?thesis using IH None by simp
        qed
      qed
      then show ?thesis using IH None before by simp
    next
      case (Some e)
      have "\<exists>s. Suc s0 \<le> s \<and> s < n
          \<and> (\<exists>c0 c1. Eye_cache_ok c0 \<and> convert_sequence hasAxis c0 (sequences ! s) = (Inl e, c1))
          \<and> (\<forall>t. Suc s0 \<le> t \<and> t < s \<longrightarrow>
                       (\<exists>c0 c1. Eye_cache_ok c0
                          \<and> convert_sequence hasAxis c0 (sequences ! t) = (Inr (arg' ! t), c1)))
          \<and> (\<forall>t \<ge> s. arg' ! t = (arg[s0 := v]) ! t)"
        using IH Some by simp
      then obtain s where s: "Suc s0 \<le> s" "s < n"
          "\<exists>c0 c1. Eye_cache_ok c0 \<and> convert_sequence hasAxis c0 (sequences ! s) = (Inl e, c1)"
          "\<forall>t. Suc s0 \<le> t \<and> t < s \<longrightarrow>
                       (\<exists>c0 c1. Eye_cache_ok c0
                          \<and> convert_sequence hasAxis c0 (sequences ! t) = (Inr (arg' ! t), c1))"
          "\<forall>t \<ge> s. arg' ! t = (arg[s0 := v]) ! t"
        by blast
      have prefix: "\<forall>t. s0 \<le> t \<and> t < s \<longrightarrow>
                       (\<exists>c0 c1. Eye_cache_ok c0
                          \<and> convert_sequence hasAxis c0 (sequences ! t) = (Inr (arg' ! t), c1))"
      proof (intro allI impI)
        fix t assume t: "s0 \<le> t \<and> t < s"
        show "\<exists>c0 c1. Eye_cache_ok c0
                    \<and> convert_sequence hasAxis c0 (sequences ! t) = (Inr (arg' ! t), c1)"
        proof (cases "t = s0")
          case True then show ?thesis using first by simp
        next
          case False
          then have "Suc s0 \<le> t \<and> t < s" using t by simp
          then show ?thesis using s(4) by simp
        qed
      qed
      have after: "\<forall>t \<ge> s. arg' ! t = arg ! t"
        using s(1,5) by auto
      have "\<exists>s. s0 \<le> s \<and> s < n
                 \<and> (\<exists>c0 c1. Eye_cache_ok c0
                       \<and> convert_sequence hasAxis c0 (sequences ! s) = (Inl e, c1))
                 \<and> (\<forall>t. s0 \<le> t \<and> t < s \<longrightarrow>
                       (\<exists>c0 c1. Eye_cache_ok c0
                          \<and> convert_sequence hasAxis c0 (sequences ! t) = (Inr (arg' ! t), c1)))
                 \<and> (\<forall>t \<ge> s. arg' ! t = arg ! t)"
        using s(1,2,3) prefix after by (intro exI [of _ s]) simp
      then show ?thesis using IH Some before by simp
    qed
  qed
qed

lemma sequences_loop_convertible:
  assumes "n \<le> length sequences" and "n \<le> length arg" and "Eye_cache_ok cached"
    and "\<forall>t. s0 \<le> t \<and> t < n \<longrightarrow> convertible hasAxis (sequences ! t)"
  shows "\<exists>arg' cached'. sequences_loop hasAxis sequences [s0 ..< n] arg cached = (None, arg', cached')"
  using assms
proof (induction "n - s0" arbitrary: s0 arg cached)
  case 0
  then have e: "[s0 ..< n] = []" by simp
  show ?case unfolding e by simp
next
  case (Suc k)
  then have lt: "s0 < n" by simp
  then have upt: "[s0 ..< n] = s0 # [Suc s0 ..< n]" by (simp add: upt_conv_Cons)
  have inr: "s0 < length sequences" "s0 < length arg"
    using lt Suc.prems(1,2) by simp_all
  have "convertible hasAxis (sequences ! s0)" using Suc.prems(4) lt by simp
  then obtain v c1 where conv: "convert_sequence hasAxis cached (sequences ! s0) = (Inr v, c1)"
    using convertible_converts [OF Suc.prems(3)] by blast
  have ok1: "Eye_cache_ok c1"
    using Suc.prems(3) conv by (rule convert_sequence_ok)
  have k: "k = n - Suc s0" using Suc.hyps(2) by simp
  have len: "n \<le> length (arg[s0 := v])" using Suc.prems(2) by simp
  have rest: "\<forall>t. Suc s0 \<le> t \<and> t < n \<longrightarrow> convertible hasAxis (sequences ! t)"
    using Suc.prems(4) by simp
  obtain arg' cached' where
    "sequences_loop hasAxis sequences [Suc s0 ..< n] (arg[s0 := v]) c1 = (None, arg', cached')"
    using Suc.hyps(1) [OF k Suc.prems(1) len ok1 rest] by blast
  then show ?case using upt conv inr by simp
qed

lemma sequences_loop_malformed:
  assumes "n \<le> length sequences" and "n \<le> length arg" and "Eye_cache_ok cached"
    and "s0 \<le> s" and "s < n"
    and "\<forall>t. s0 \<le> t \<and> t < s \<longrightarrow> convertible False (sequences ! t)"
    and "Shape (sequences ! s) \<noteq> []" and "last (Shape (sequences ! s)) \<noteq> 1"
  shows "\<exists>arg' cached'. sequences_loop False sequences [s0 ..< n] arg cached
           = (Some MalformedStreamError, arg', cached')"
  using assms(1-4,6)
proof (induction "s - s0" arbitrary: s0 arg cached)
  case 0
  then have eq: "s0 = s" by simp
  have upt: "[s ..< n] = s # [Suc s ..< n]" using assms(5) by (simp add: upt_conv_Cons)
  have inr: "s < length sequences" "s < length arg"
    using assms(5) "0.prems"(1,2) by simp_all
  show ?case
    using upt inr convert_sequence_malformed [OF assms(7,8)] by (simp add: eq)
next
  case (Suc k)
  then have lt: "s0 < s" by simp
  then have lt': "s0 < n" using assms(5) by simp
  then have upt: "[s0 ..< n] = s0 # [Suc s0 ..< n]" by (simp add: upt_conv_Cons)
  have inr: "s0 < length sequences" "s0 < length arg"
    using lt' Suc.prems(1,2) by simp_all
  have "convertible False (sequences ! s0)" using Suc.prems(5) lt by simp
  then obtain v c1 where conv: "convert_sequence False cached (sequences ! s0) = (Inr v, c1)"
    using convertible_converts [OF Suc.prems(3)] by blast
  have ok1: "Eye_cache_ok c1"
    using Suc.prems(3) conv by (rule convert_sequence_ok)
  have k: "k = s - Suc s0" using Suc.hyps(2) by simp
  have len: "n \<le> length (arg[s0 := v])" using Suc.prems(2) by simp
  have le: "Suc s0 \<le> s" using lt by simp
  have rest: "\<forall>t. Suc s0 \<le> t \<and> t < s \<longrightarrow> convertible False (sequences ! t)"
    using Suc.prems(5) by simp
  obtain arg' cached' where
    "sequences_loop False sequences [Suc s0 ..< n] (arg[s0 := v]) c1
       = (Some MalformedStreamError, arg', cached')"
    using Suc.hyps(1) [OF k Suc.prems(1) len ok1 le rest] by blast
  then show ?case using upt conv inr by simp
qed

subsection \<open>One argument\<close>

lemma hasAxis_stream_variable:
  "(Suc 0 < length (DynamicAxes (stream_variable input isSeq))) = isSeq"
  by (simp add: stream_variable_def Let_def DefaultInputVariableDynamicAxes_def)

lemma check_numSeq_result:
  "check_numSeq numSeq k = Inr numSeq' \<Longrightarrow> numSeq' = k \<and> (numSeq = 0 \<or> numSeq = k)"
  by (auto simp: check_numSeq_def split: if_splits)

lemma check_numSeq_error:
  "check_numSeq numSeq k = Inl e \<Longrightarrow> e = BatchShapeMismatchError \<and> numSeq \<noteq> 0 \<and> numSeq \<noteq> k"
  by (auto simp: check_numSeq_def split: if_splits)

lemma convert_argument_unfold:
  assumes "i < length isSequence" and "i < length inputs" and "i < length res"
  shows "convert_argument unpack inputs isSequence device i (res, numSeq, cached) =
     (case check_numSeq numSeq (length (stream_sequences unpack inputs isSequence device i)) of
        Inl e \<Rightarrow> (Some e, res, numSeq, cached)
      | Inr numSeq' \<Rightarrow>
          (case sequences_loop (isSequence ! i) (stream_sequences unpack inputs isSequence device i)
                  [0 ..< numSeq'] (vector_resize numSeq' NullVariable (res ! i)) cached of
             (failure, arg', cached') \<Rightarrow> (failure, res[i := arg'], numSeq', cached')))"
  using assms
  by (simp add: convert_argument_def stream_sequences_def Let_def hasAxis_stream_variable
        split: sum.splits)

lemma convert_argument_result:
  assumes len: "length res = n" and i: "i < n" and n: "n = length inputs" and ok: "Eye_cache_ok cached"
    and run: "convert_argument unpack inputs isSequence device i (res, numSeq, cached)
           = (failure, res', numSeq', cached')"
  shows "length res' = n \<and> Eye_cache_ok cached' \<and> (\<forall>k. k \<noteq> i \<longrightarrow> res' ! k = res ! k)
       \<and> (failure = None \<longrightarrow>
            argument_converted unpack inputs isSequence device i (res' ! i)
            \<and> numSeq' = length (stream_sequences unpack inputs isSequence device i)
            \<and> (numSeq = 0 \<or> numSeq = numSeq'))
       \<and> (failure = Some BatchShapeMismatchError \<longrightarrow>
            numSeq \<noteq> 0 \<and> numSeq \<noteq> length (stream_sequences unpack inputs isSequence device i))"
proof (cases "i < length isSequence")
  case False
  then have "failure = Some OutOfRange" "res' = res" "cached' = cached"
    using run by (simp_all add: convert_argument_def)
  then show ?thesis using len ok by simp
next
  case True
  let ?seqs = "stream_sequences unpack inputs isSequence device i"
  note unf = convert_argument_unfold [OF True, of inputs res unpack device numSeq cached]
  have i': "i < length inputs" "i < length res" using i n len by simp_all
  show ?thesis
  proof (cases "check_numSeq numSeq (length ?seqs)")
    case (Inl e)
    then have "failure = Some e" "res' = res" "cached' = cached"
      using run unf i' by simp_all
    then show ?thesis using len ok check_numSeq_error [OF Inl] by simp
  next
    case (Inr ns)
    have ns: "ns = length ?seqs" "numSeq = 0 \<or> numSeq = length ?seqs"
      using check_numSeq_result [OF Inr] by simp_all
    obtain f a c where loop: "sequences_loop (isSequence ! i) ?seqs [0 ..< ns]
        (vector_resize ns NullVariable (res ! i)) cached = (f, a, c)"
      by (metis prod_cases3)
    have res: "failure = f" "res' = res[i := a]" "numSeq' = ns" "cached' = c"
      using run unf i' Inr loop by simp_all
    have l1: "ns \<le> length ?seqs" using ns by simp
    have l2: "ns \<le> length (vector_resize ns NullVariable (res ! i))"
      by (simp add: vector_resize_def)
    note R = sequences_loop_result [OF l1 l2 ok loop]
    have la: "length a = ns" using R by (simp add: vector_resize_def)
    have "argument_converted unpack inputs isSequence device i a" if "f = None"
      using R that True la ns by (simp add: argument_converted_def)
    moreover have "f \<noteq> Some BatchShapeMismatchError"
    proof
      assume "f = Some BatchShapeMismatchError"
      then obtain s c0 c1 where
        "convert_sequence (isSequence ! i) c0 (?seqs ! s) = (Inl BatchShapeMismatchError, c1)"
        using R by auto
      then show False using convert_sequence_no_mismatch by blast
    qed
    ultimately show ?thesis
      using res R len i' ns by (auto simp: nth_list_update)
  qed
qed

lemma convert_argument_convertible:
  assumes len: "length res = n" and i: "i < n" and n: "n = length inputs"
    and flags: "i < length isSequence" and ok: "Eye_cache_ok cached"
    and count: "length (stream_sequences unpack inputs isSequence device i) = N"
    and ns: "numSeq = 0 \<or> numSeq = N"
    and conv: "\<forall>s < N. convertible (isSequence ! i) (stream_sequences unpack inputs isSequence device i ! s)"
  shows "\<exists>res' cached'. convert_argument unpack inputs isSequence device i (res, numSeq, cached)
           = (None, res', N, cached') \<and> length res' = n \<and> Eye_cache_ok cached'"
proof -
  let ?seqs = "stream_sequences unpack inputs isSequence device i"
  have i': "i < length inputs" "i < length res" using i n len by simp_all
  note unf = convert_argument_unfold [OF flags i', of unpack device numSeq cached]
  have chk: "check_numSeq numSeq (length ?seqs) = Inr N"
    using count ns by (auto simp: check_numSeq_def)
  have l1: "N \<le> length ?seqs" using count by simp
  have l2: "N \<le> length (vector_resize N NullVariable (res ! i))"
    by (simp add: vector_resize_def)
  have all: "\<forall>t. 0 \<le> t \<and> t < N \<longrightarrow> convertible (isSequence ! i) (?seqs ! t)"
    using conv by simp
  obtain a c where loop: "sequences_loop (isSequence ! i) ?seqs [0 ..< N]
        (vector_resize N NullVariable (res ! i)) cached = (None, a, c)"
    using sequences_loop_convertible [OF l1 l2 ok all] by blast
  have "Eye_cache_ok c"
    using sequences_loop_result [OF l1 l2 ok loop] by simp
  then show ?thesis
    using unf chk loop len by simp
qed

lemma convert_argument_mismatch:
  assumes "i < length isSequence" and "i < length inputs" and "i < length res"
    and "numSeq \<noteq> 0" and "numSeq \<noteq> length (stream_sequences unpack inputs isSequence device i)"
  shows "convert_argument unpack inputs isSequence device i (res, numSeq, cached)
           = (Some BatchShapeMismatchError, res, numSeq, cached)"
  using convert_argument_unfold [OF assms(1-3), of unpack device numSeq cached] assms(4,5)
  by (simp add: check_numSeq_def)

lemma convert_argument_malformed:
  assumes len: "length res = n" and i: "i < n" and n: "n = length inputs"
    and flags: "i < length isSequence" and ok: "Eye_cache_ok cached"
    and count: "length (stream_sequences unpack inputs isSequence device i) = N"
    and ns: "numSeq = 0 \<or> numSeq = N"
    and nonseq: "\<not> isSequence ! i"
    and s: "s < N"
    and conv: "\<forall>t < s. convertible False (stream_sequences unpack inputs isSequence device i ! t)"
    and bad: "Shape (stream_sequences unpack inputs isSequence device i ! s) \<noteq> []"
         "last (Shape (stream_sequences unpack inputs isSequence device i ! s)) \<noteq> 1"
  shows "\<exists>state'. convert_argument unpack inputs isSequence device i (res, numSeq, cached)
           = (Some MalformedStreamError, state')"
proof -
  let ?seqs = "stream_sequences unpack inputs isSequence device i"
  have i': "i < length inputs" "i < length res" using i n len by simp_all
  note unf = convert_argument_unfold [OF flags i', of unpack device numSeq cached]
  have chk: "check_numSeq numSeq (length ?seqs) = Inr N"
    using count ns by (auto simp: check_numSeq_def)
  have l1: "N \<le> length ?seqs" using count by simp
  have l2: "N \<le> length (vector_resize N NullVariable (res ! i))"
    by (simp add: vector_resize_def)
  have pre: "\<forall>t. 0 \<le> t \<and> t < s \<longrightarrow> convertible False (?seqs ! t)"
    using conv by simp
  obtain a c where "sequences_loop False ?seqs [0 ..< N]
        (vector_resize N NullVariable (res ! i)) cached = (Some MalformedStreamError, a, c)"
    using sequences_loop_malformed [OF l1 l2 ok _ s pre bad] by blast
  then show ?thesis
    using unf chk nonseq by simp
qed


subsection \<open>The outer loop\<close>

lemma arguments_loop_result:
  assumes "length res = n" and "n = length inputs" and "Eye_cache_ok cached"
    and "arguments_loop unpack inputs isSequence device [i0 ..< n] (res, numSeq, cached)
           = (failure, res', numSeq', cached')"
  shows "length res' = n \<and> Eye_cache_ok cached' \<and> (\<forall>k < i0. res' ! k = res ! k)
       \<and> (case failure of
            None \<Rightarrow>
              (\<forall>i. i0 \<le> i \<and> i < n \<longrightarrow>
                 argument_converted unpack inputs isSequence device i (res' ! i))
          | Some e \<Rightarrow>
              (\<exists>i. i0 \<le> i \<and> i < n
                 \<and> (\<forall>k. i0 \<le> k \<and> k < i \<longrightarrow>
                       argument_converted unpack inputs isSequence device k (res' ! k))
                 \<and> (\<forall>k > i. res' ! k = res ! k)))"
  using assms
proof (induction "n - i0" arbitrary: i0 res numSeq cached)
  case 0
  then have e: "[i0 ..< n] = []" by simp
  have "failure = None" "res' = res" "cached' = cached"
    using "0.prems"(4) unfolding e by simp_all
  then show ?case using "0.prems"(1,3) "0.hyps" by auto
next
  case (Suc d)
  then have lt: "i0 < n" by simp
  then have upt: "[i0 ..< n] = i0 # [Suc i0 ..< n]" by (simp add: upt_conv_Cons)
  obtain f res1 ns1 c1 where step:
    "convert_argument unpack inputs isSequence device i0 (res, numSeq, cached) = (f, res1, ns1, c1)"
    by (metis prod_cases4)
  note CA = convert_argument_result [OF Suc.prems(1) lt Suc.prems(2,3) step]
  show ?case
  proof (cases f)
    case (Some e)
    then have res: "failure = Some e" "res' = res1"  "cached' = c1"
      using Suc.prems(4) upt step by simp_all
    have "\<exists>i. i0 \<le> i \<and> i < n
                 \<and> (\<forall>k. i0 \<le> k \<and> k < i \<longrightarrow>
                       argument_converted unpack inputs isSequence device k (res' ! k))
                 \<and> (\<forall>k > i. res' ! k = res ! k)"
      using CA lt res by (intro exI [of _ i0]) auto
    then show ?thesis using CA res by simp
  next
    case None
    then have rec: "arguments_loop unpack inputs isSequence device [Suc i0 ..< n] (res1, ns1, c1)
        = (failure, res', numSeq', cached')"
      using Suc.prems(4) upt step by simp
    have d: "d = n - Suc i0" using Suc.hyps(2) by simp
    have len1: "length res1 = n" and ok1: "Eye_cache_ok c1" using CA by simp_all
    note IH = Suc.hyps(1) [OF d len1 Suc.prems(2) ok1 rec]
    have here: "argument_converted unpack inputs isSequence device i0 (res' ! i0)"
      using IH CA None by simp
    have before: "\<forall>k < i0. res' ! k = res ! k"
      using IH CA by simp
    show ?thesis
    proof (cases failure)
      case None
      have "\<forall>i. i0 \<le> i \<and> i < n \<longrightarrow>
                 argument_converted unpack inputs isSequence device i (res' ! i)"
      proof (intro allI impI)
        fix i assume i: "i0 \<le> i \<and> i < n"
        show "argument_converted unpack inputs isSequence device i (res' ! i)"
        proof (cases "i = i0")
          case True then show ?thesis using here by simp
        next
          case False
          then have "Suc i0 \<le> i \<and> i < n" using i by simp
          then show ?thesis using IH None by simp
        qed
      qed
      then show ?thesis using IH None before by simp
    next
      case (Some e)
      have "\<exists>i. Suc i0 \<le> i \<and> i < n
                 \<and> (\<forall>k. Suc i0 \<le> k \<and> k < i \<longrightarrow>
                       argument_converted unpack inputs isSequence device k (res' ! k))
                 \<and> (\<forall>k > i. res' ! k = res1 ! k)"
        using IH Some by simp
      then obtain i where i: "Suc i0 \<le> i" "i < n"
          "\<forall>k. Suc i0 \<le> k \<and> k < i \<longrightarrow>
                       argument_converted unpack inputs isSequence device k (res' ! k)"
          "\<forall>k > i. res' ! k = res1 ! k"
        by blast
      have prefix: "\<forall>k. i0 \<le> k \<and> k < i \<longrightarrow>
                       argument_converted unpack inputs isSequence device k (res' ! k)"
      proof (intro allI impI)
        fix k assume k: "i0 \<le> k \<and> k < i"
        show "argument_converted unpack inputs isSequence device k (res' ! k)"
        proof (cases "k = i0")
          case True then show ?thesis using here by simp
        next
          case False
          then have "Suc i0 \<le> k \<and> k < i" using k by simp
          then show ?thesis using i(3) by simp
        qed
      qed
      have after: "\<forall>k > i. res' ! k = res ! k"
        using i(1,4) CA by auto
      have "\<exists>i. i0 \<le> i \<and> i < n
                 \<and> (\<forall>k. i0 \<le> k \<and> k < i \<longrightarrow>
                       argument_converted unpack inputs isSequence device k (res' ! k))
                 \<and> (\<forall>k > i. res' ! k = res ! k)"
        using i(1,2) prefix after by (intro exI [of _ i]) simp
      then show ?thesis using IH Some before by simp
    qed
  qed
qed

lemma arguments_loop_counts:
  assumes "length res = n" and "n = length inputs" and "Eye_cache_ok cached"
    and "arguments_loop unpack inputs isSequence device [i0 ..< n] (res, numSeq, cached)
           = (None, res', numSeq', cached')"
  shows "\<forall>i. i0 \<le> i \<and> i < n \<longrightarrow>
           (numSeq \<noteq> 0 \<longrightarrow> length (stream_sequences unpack inputs isSequence device i) = numSeq)
         \<and> (numSeq = 0 \<and> length (stream_sequences unpack inputs isSequence device i0) \<noteq> 0 \<longrightarrow>
              length (stream_sequences unpack inputs isSequence device i)
                = length (stream_sequences unpack inputs isSequence device i0))"
  using assms
proof (induction "n - i0" arbitrary: i0 res numSeq cached)
  case 0
  then show ?case by simp
next
  case (Suc d)
  then have lt: "i0 < n" by simp
  then have upt: "[i0 ..< n] = i0 # [Suc i0 ..< n]" by (simp add: upt_conv_Cons)
  obtain f res1 ns1 c1 where step:
    "convert_argument unpack inputs isSequence device i0 (res, numSeq, cached) = (f, res1, ns1, c1)"
    by (metis prod_cases4)
  note CA = convert_argument_result [OF Suc.prems(1) lt Suc.prems(2,3) step]
  have f: "f = None"
    using Suc.prems(4) upt step by (cases f) simp_all
  then have rec: "arguments_loop unpack inputs isSequence device [Suc i0 ..< n] (res1, ns1, c1)
        = (None, res', numSeq', cached')"
    using Suc.prems(4) upt step by simp
  have d: "d = n - Suc i0" using Suc.hyps(2) by simp
  have len1: "length res1 = n" and ok1: "Eye_cache_ok c1" using CA by simp_all
  note IH = Suc.hyps(1) [OF d len1 Suc.prems(2) ok1 rec]
  have ns1: "ns1 = length (stream_sequences unpack inputs isSequence device i0)"
    and ns: "numSeq = 0 \<or> numSeq = ns1"
    using CA f by auto
  show ?case
  proof (intro allI impI)
    fix i assume i: "i0 \<le> i \<and> i < n"
    show "(numSeq \<noteq> 0 \<longrightarrow> length (stream_sequences unpack inputs isSequence device i) = numSeq)
         \<and> (numSeq = 0 \<and> length (stream_sequences unpack inputs isSequence device i0) \<noteq> 0 \<longrightarrow>
              length (stream_sequences unpack inputs isSequence device i)
                = length (stream_sequences unpack inputs isSequence device i0))"
    proof (cases "i = i0")
      case True
      then show ?thesis using ns ns1 by auto
    next
      case False
      then have "Suc i0 \<le> i \<and> i < n" using i by simp
      then have "ns1 \<noteq> 0 \<longrightarrow> length (stream_sequences unpack inputs isSequence device i) = ns1"
        using IH by simp
      then show ?thesis using ns ns1 by auto
    qed
  qed
qed

lemma arguments_loop_no_mismatch:
  assumes "length res = n" and "n = length inputs" and "Eye_cache_ok cached"
    and "\<forall>i. i0 \<le> i \<and> i < n \<longrightarrow> length (stream_sequences unpack inputs isSequence device i) = N"
    and "numSeq = 0 \<or> numSeq = N"
    and "arguments_loop unpack inputs isSequence device [i0 ..< n] (res, numSeq, cached)
           = (failure, res', numSeq', cached')"
  shows "failure \<noteq> Some BatchShapeMismatchError"
  using assms
proof (induction "n - i0" arbitrary: i0 res numSeq cached)
  case 0
  then have e: "[i0 ..< n] = []" by simp
  show ?case using "0.prems"(6) unfolding e by simp
next
  case (Suc d)
  then have lt: "i0 < n" by simp
  then have upt: "[i0 ..< n] = i0 # [Suc i0 ..< n]" by (simp add: upt_conv_Cons)
  obtain f res1 ns1 c1 where step:
    "convert_argument unpack inputs isSequence device i0 (res, numSeq, cached) = (f, res1, ns1, c1)"
    by (metis prod_cases4)
  note CA = convert_argument_result [OF Suc.prems(1) lt Suc.prems(2,3) step]
  have cnt: "length (stream_sequences unpack inputs isSequence device i0) = N"
    using Suc.prems(4) lt by simp
  have nomis: "f \<noteq> Some BatchShapeMismatchError"
    using CA cnt Suc.prems(5) by auto
  show ?case
  proof (cases f)
    case (Some e)
    then have "failure = Some e" using Suc.prems(6) upt step by simp
    then show ?thesis using nomis Some by simp
  next
    case None
    then have rec: "arguments_loop unpack inputs isSequence device [Suc i0 ..< n] (res1, ns1, c1)
        = (failure, res', numSeq', cached')"
      using Suc.prems(6) upt step by simp
    have d: "d = n - Suc i0" using Suc.hyps(2) by simp
    have len1: "length res1 = n" and ok1: "Eye_cache_ok c1" using CA by simp_all
    have rest: "\<forall>i. Suc i0 \<le> i \<and> i < n \<longrightarrow>
        length (stream_sequences unpack inputs isSequence device i) = N"
      using Suc.prems(4) by simp
    have ns1: "ns1 = 0 \<or> ns1 = N" using CA None cnt by simp
    show ?thesis
      using Suc.hyps(1) [OF d len1 Suc.prems(2) ok1 rest ns1 rec] .
  qed
qed

lemma arguments_loop_reach:
  assumes "length res = n" and "n = length inputs" and "n \<le> length isSequence"
    and "Eye_cache_ok cached" and "i0 \<le> i" and "i \<le> n" and "numSeq = 0 \<or> numSeq = N"
    and "\<forall>k. i0 \<le> k \<and> k < i \<longrightarrow>
           length (stream_sequences unpack inputs isSequence device k) = N
           \<and> (\<forall>s < N. convertible (isSequence ! k)
                  (stream_sequences unpack inputs isSequence device k ! s))"
  shows "\<exists>res1 ns c1. length res1 = n \<and> Eye_cache_ok c1 \<and> (ns = 0 \<or> ns = N)
           \<and> (i0 < i \<longrightarrow> ns = N)
           \<and> arguments_loop unpack inputs isSequence device [i0 ..< n] (res, numSeq, cached)
               = arguments_loop unpack inputs isSequence device [i ..< n] (res1, ns, c1)"
  using assms
proof (induction "i - i0" arbitrary: i0 res numSeq cached)
  case 0
  then have "i0 = i" by simp
  then show ?case using "0.prems"(1,4,7) by auto
next
  case (Suc d)
  then have lt: "i0 < i" by simp
  then have lt': "i0 < n" using Suc.prems(6) by simp
  then have upt: "[i0 ..< n] = i0 # [Suc i0 ..< n]" by (simp add: upt_conv_Cons)
  have flags: "i0 < length isSequence" using lt' Suc.prems(3) by simp
  have cnt: "length (stream_sequences unpack inputs isSequence device i0) = N"
    and conv: "\<forall>s < N. convertible (isSequence ! i0)
                  (stream_sequences unpack inputs isSequence device i0 ! s)"
    using Suc.prems(8) lt by simp_all
  obtain res1 c1 where step:
    "convert_argument unpack inputs isSequence device i0 (res, numSeq, cached) = (None, res1, N, c1)"
    and len1: "length res1 = n" and ok1: "Eye_cache_ok c1"
    using convert_argument_convertible [OF Suc.prems(1) lt' Suc.prems(2) flags Suc.prems(4) cnt
        Suc.prems(7) conv] by blast
  have d: "d = i - Suc i0" using Suc.hyps(2) by simp
  have le: "Suc i0 \<le> i" using lt by simp
  have rest: "\<forall>k. Suc i0 \<le> k \<and> k < i \<longrightarrow>
           length (stream_sequences unpack inputs isSequence device k) = N
           \<and> (\<forall>s < N. convertible (isSequence ! k)
                  (stream_sequences unpack inputs isSequence device k ! s))"
    using Suc.prems(8) by simp
  have nsN: "N = 0 \<or> N = N" by simp
  obtain res2 ns c2 where r: "length res2 = n" "Eye_cache_ok c2" "ns = 0 \<or> ns = N"
      "Suc i0 < i \<longrightarrow> ns = N"
      "arguments_loop unpack inputs isSequence device [Suc i0 ..< n] (res1, N, c1)
          = arguments_loop unpack inputs isSequence device [i ..< n] (res2, ns, c2)"
    using Suc.hyps(1) [OF d len1 Suc.prems(2,3) ok1 le Suc.prems(6) nsN rest] by blast
  show ?case
  proof (cases "Suc i0 = i")
    case True
    have "arguments_loop unpack inputs isSequence device [i0 ..< n] (res, numSeq, cached)
        = arguments_loop unpack inputs isSequence device [i ..< n] (res1, N, c1)"
      using upt step True by simp
    then show ?thesis using len1 ok1 by blast
  next
    case False
    then have "ns = N" using r(4) le by simp
    moreover have "arguments_loop unpack inputs isSequence device [i0 ..< n] (res, numSeq, cached)
        = arguments_loop unpack inputs isSequence device [i ..< n] (res2, ns, c2)"
      using upt step r(5) by simp
    ultimately show ?thesis using r(1,2) by blast
  qed
qed


subsection \<open>\<open>FromCNTKMB\<close>\<close>

lemma FromCNTKMB_unfold:
  "FromCNTKMB unpack cached res inputs isSequence device =
     (case arguments_loop unpack inputs isSequence device [0 ..< length inputs]
             (replicate (length inputs) [], 0, cached) of
        (failure, res', numSeq, cached') \<Rightarrow> (failure, res', cached'))"
  by (simp add: FromCNTKMB_def vector_clear_def vector_resize_def Let_def)

lemma Eye_calls_ok: "Eye_cache_ok (Eye_calls Map.empty calls)"
  using Eye_cache_ok_empty by (rule Eye_cache_ok_calls)

lemma FromCNTKMB_run:
  assumes "FromCNTKMB unpack cached res inputs isSequence device = (failure, res', cached')"
  obtains numSeq' where
    "arguments_loop unpack inputs isSequence device [0 ..< length inputs]
       (replicate (length inputs) [], 0, cached) = (failure, res', numSeq', cached')"
  using assms unfolding FromCNTKMB_unfold by (auto split: prod.splits)

lemma sequences_loop_length:
  "sequences_loop hasAxis sequences ss arg cached = (failure, arg', cached')
     \<Longrightarrow> length arg' = length arg"
proof (induction ss arbitrary: arg cached)
  case Nil
  then show ?case by simp
next
  case (Cons s ss)
  show ?case
  proof (cases "length sequences \<le> s \<or> length arg \<le> s")
    case True
    then show ?thesis using Cons.prems by simp
  next
    case False
    obtain r c1 where conv: "convert_sequence hasAxis cached (sequences ! s) = (r, c1)"
      by (cases "convert_sequence hasAxis cached (sequences ! s)") auto
    show ?thesis
    proof (cases r)
      case (Inl e)
      then show ?thesis using Cons.prems False conv by simp
    next
      case (Inr v)
      then have "sequences_loop hasAxis sequences ss (arg[s := v]) c1 = (failure, arg', cached')"
        using Cons.prems False conv by simp
      then have "length arg' = length (arg[s := v])" by (rule Cons.IH)
      then show ?thesis by simp
    qed
  qed
qed

lemma convert_argument_length:
  "convert_argument unpack inputs isSequence device i (res, numSeq, cached)
     = (failure, res', numSeq', cached') \<Longrightarrow> length res' = length res"
  by (auto simp: convert_argument_def Let_def split: if_splits sum.splits prod.splits)

lemma arguments_loop_length:
  "arguments_loop unpack inputs isSequence device is (res, numSeq, cached)
     = (failure, res', numSeq', cached') \<Longrightarrow> length res' = length res"
proof (induction "is" arbitrary: res numSeq cached)
  case Nil
  then show ?case by simp
next
  case (Cons i "is")
  obtain f res1 ns1 c1 where step:
    "convert_argument unpack inputs isSequence device i (res, numSeq, cached) = (f, res1, ns1, c1)"
    by (metis prod_cases4)
  have len1: "length res1 = length res" using step by (rule convert_argument_length)
  show ?case
  proof (cases f)
    case (Some e)
    then show ?thesis using Cons.prems step len1 by simp
  next
    case None
    then have "arguments_loop unpack inputs isSequence device is (res1, ns1, c1)
        = (failure, res', numSeq', cached')"
      using Cons.prems step by simp
    then show ?thesis using Cons.IH len1 by simp
  qed
qed

text \<open>
  C10. \<open>FromCNTKMB\<close> starts by clearing \<open>res\<close> and resizing it to one empty entry per
  input: two calls that differ only in what \<open>res\<close> held before give the same error (or
  none), the same \<open>res\<close> and the same map, and \<open>res\<close> ends with exactly one entry per
  input.
\<close>

theorem FromCNTKMB_ignores_old_res:
  "FromCNTKMB unpack cached res1 inputs isSequence device
     = FromCNTKMB unpack cached res2 inputs isSequence device
   \<and> vector_resize (length inputs) [] (vector_clear res1) = replicate (length inputs) []
   \<and> length (fst (snd (FromCNTKMB unpack cached res1 inputs isSequence device))) = length inputs"
proof -
  obtain failure res' cached' where
    run: "FromCNTKMB unpack cached res1 inputs isSequence device = (failure, res', cached')"
    by (metis prod_cases3)
  then obtain numSeq' where
    "arguments_loop unpack inputs isSequence device [0 ..< length inputs]
       (replicate (length inputs) [], 0, cached) = (failure, res', numSeq', cached')"
    by (rule FromCNTKMB_run)
  then have "length res' = length inputs"
    using arguments_loop_length by fastforce
  then show ?thesis
    using run by (simp add: FromCNTKMB_unfold vector_clear_def vector_resize_def Let_def)
qed

lemma argument_converted_entries:
  assumes "argument_converted unpack inputs isSequence device i arg"
  shows "length arg = length (stream_sequences unpack inputs isSequence device i)
       \<and> (\<forall>s < length arg. \<exists>dense. arg ! s = Constant dense \<and> \<not> IsSparse dense
             \<and> Shape dense = (if isSequence ! i
                   then Shape (stream_sequences unpack inputs isSequence device i ! s)
                   else butlast (Shape (stream_sequences unpack inputs isSequence device i ! s)))
             \<and> (isSequence ! i \<or>
                  (Shape (stream_sequences unpack inputs isSequence device i ! s) \<noteq> []
                   \<and> last (Shape (stream_sequences unpack inputs isSequence device i ! s)) = 1)))"
proof (intro conjI allI impI)
  show "length arg = length (stream_sequences unpack inputs isSequence device i)"
    using assms by (simp add: argument_converted_def)
next
  fix s assume "s < length arg"
  then obtain c0 c1 where "Eye_cache_ok c0"
    "convert_sequence (isSequence ! i) c0
        (stream_sequences unpack inputs isSequence device i ! s) = (Inr (arg ! s), c1)"
    using assms unfolding argument_converted_def by blast
  then show "\<exists>dense. arg ! s = Constant dense \<and> \<not> IsSparse dense
             \<and> Shape dense = (if isSequence ! i
                   then Shape (stream_sequences unpack inputs isSequence device i ! s)
                   else butlast (Shape (stream_sequences unpack inputs isSequence device i ! s)))
             \<and> (isSequence ! i \<or>
                  (Shape (stream_sequences unpack inputs isSequence device i ! s) \<noteq> []
                   \<and> last (Shape (stream_sequences unpack inputs isSequence device i ! s)) = 1))"
    by (rule convert_sequence_result)
qed


lemma convert_argument_first:
  assumes "0 < length isSequence" and "0 < length inputs" and "0 < length res"
  shows "fst (snd (snd (convert_argument unpack inputs isSequence device 0 (res, 0, cached))))
           = length (stream_sequences unpack inputs isSequence device 0)"
  using convert_argument_unfold [OF assms, of unpack device 0 cached]
  by (simp add: check_numSeq_def split: prod.splits)

text \<open>The first argument whose count differs from the recorded one is where line 101 throws.\<close>

lemma mismatch_reached:
  assumes flags: "length inputs \<le> length isSequence"
    and first: "0 < length (stream_sequences unpack inputs isSequence device 0)"
    and k: "k < length inputs"
    and differs: "length (stream_sequences unpack inputs isSequence device k)
           \<noteq> length (stream_sequences unpack inputs isSequence device 0)"
    and before: "\<forall>j < k. length (stream_sequences unpack inputs isSequence device j)
                      = length (stream_sequences unpack inputs isSequence device 0)
                  \<and> (\<forall>s < length (stream_sequences unpack inputs isSequence device 0).
                        convertible (isSequence ! j)
                          (stream_sequences unpack inputs isSequence device j ! s))"
  shows "fst (FromCNTKMB unpack (Eye_calls Map.empty calls) res inputs isSequence device)
            = Some BatchShapeMismatchError"
proof -
  let ?run = "FromCNTKMB unpack (Eye_calls Map.empty calls) res inputs isSequence device"
  let ?n = "length inputs"
  let ?count = "\<lambda>j. length (stream_sequences unpack inputs isSequence device j)"
  obtain failure res' cached' where run: "?run = (failure, res', cached')"
    by (metis prod_cases3)
  then obtain numSeq' where loop:
    "arguments_loop unpack inputs isSequence device [0 ..< ?n]
       (replicate ?n [], 0, Eye_calls Map.empty calls) = (failure, res', numSeq', cached')"
    by (rule FromCNTKMB_run)
  have len: "length (replicate ?n ([] :: Variable list)) = ?n" by simp
  have k0: "0 < k" using differs by (cases k) auto
  have pre: "\<forall>j. 0 \<le> j \<and> j < k \<longrightarrow> ?count j = ?count 0
           \<and> (\<forall>s < ?count 0. convertible (isSequence ! j)
                  (stream_sequences unpack inputs isSequence device j ! s))"
    using before by blast
  have kn: "k \<le> ?n" using k by simp
  have ns: "(0::nat) = 0 \<or> 0 = ?count 0" by simp
  obtain res1 ns c1 where r: "length res1 = ?n" "Eye_cache_ok c1" "0 < k \<longrightarrow> ns = ?count 0"
    "arguments_loop unpack inputs isSequence device [0 ..< ?n]
        (replicate ?n [], 0, Eye_calls Map.empty calls)
      = arguments_loop unpack inputs isSequence device [k ..< ?n] (res1, ns, c1)"
    using arguments_loop_reach [OF len refl flags Eye_calls_ok _ kn ns pre] by blast
  have nsN: "ns = ?count 0" using r(3) k0 by simp
  have upt: "[k ..< ?n] = k # [Suc k ..< ?n]" using k by (simp add: upt_conv_Cons)
  have "convert_argument unpack inputs isSequence device k (res1, ns, c1)
         = (Some BatchShapeMismatchError, res1, ns, c1)"
    using k flags first differs r(1) nsN by (intro convert_argument_mismatch) auto
  then have "arguments_loop unpack inputs isSequence device [k ..< ?n] (res1, ns, c1)
         = (Some BatchShapeMismatchError, res1, ns, c1)"
    using upt by simp
  then have "failure = Some BatchShapeMismatchError"
    using r(4) loop by simp
  then show ?thesis using run by simp
qed

lemma first_mismatch:
  fixes count :: "nat \<Rightarrow> nat"
  assumes "count k \<noteq> count 0"
  obtains k' where "k' \<le> k" and "count k' \<noteq> count 0" and "\<forall>j < k'. count j = count 0"
proof -
  define k' where "k' = (LEAST j. count j \<noteq> count 0)"
  have "count k' \<noteq> count 0"
    unfolding k'_def using assms by (rule LeastI)
  moreover have "k' \<le> k"
    unfolding k'_def using assms by (rule Least_le)
  moreover have "\<forall>j < k'. count j = count 0"
    unfolding k'_def using not_less_Least by blast
  ultimately show ?thesis using that by blast
qed

text \<open>
  C1, as amended. With the map of a running program:
  \<^item> the first argument leaves its number of sequences in \<open>numSeq\<close>;
  \<^item> when all arguments unpack to the same number of sequences, the call does not fail
    with \<open>BatchShapeMismatchError\<close>;
  \<^item> when the first argument has at least one sequence and some argument \<open>k\<close> unpacks
    to a different number, the call fails;
  \<^item> it fails with \<open>BatchShapeMismatchError\<close> when, in addition, the examples of the
    arguments before \<open>k\<close> convert without a throw.
\<close>

theorem FromCNTKMB_count_check:
  "(0 < length inputs \<and> 0 < length isSequence
      \<longrightarrow> fst (snd (snd (convert_argument unpack inputs isSequence device 0
                              (vector_resize (length inputs) [] (vector_clear res), 0,
                               Eye_calls Map.empty calls))))
            = length (stream_sequences unpack inputs isSequence device 0))
   \<and> ((\<forall>j < length inputs. length (stream_sequences unpack inputs isSequence device j) = N)
      \<longrightarrow> fst (FromCNTKMB unpack (Eye_calls Map.empty calls) res inputs isSequence device)
            \<noteq> Some BatchShapeMismatchError)
   \<and> (0 < length (stream_sequences unpack inputs isSequence device 0)
       \<and> k < length inputs
       \<and> length (stream_sequences unpack inputs isSequence device k)
           \<noteq> length (stream_sequences unpack inputs isSequence device 0)
      \<longrightarrow> fst (FromCNTKMB unpack (Eye_calls Map.empty calls) res inputs isSequence device) \<noteq> None)
   \<and> (length inputs \<le> length isSequence
       \<and> 0 < length (stream_sequences unpack inputs isSequence device 0)
       \<and> k < length inputs
       \<and> length (stream_sequences unpack inputs isSequence device k)
           \<noteq> length (stream_sequences unpack inputs isSequence device 0)
       \<and> (\<forall>j < k. \<forall>s < length (stream_sequences unpack inputs isSequence device j).
              convertible (isSequence ! j) (stream_sequences unpack inputs isSequence device j ! s))
      \<longrightarrow> fst (FromCNTKMB unpack (Eye_calls Map.empty calls) res inputs isSequence device)
            = Some BatchShapeMismatchError)"
proof (intro conjI impI)
  let ?run = "FromCNTKMB unpack (Eye_calls Map.empty calls) res inputs isSequence device"
  let ?n = "length inputs"
  let ?count = "\<lambda>j. length (stream_sequences unpack inputs isSequence device j)"
  obtain failure res' cached' where run: "?run = (failure, res', cached')"
    by (metis prod_cases3)
  then obtain numSeq' where loop:
    "arguments_loop unpack inputs isSequence device [0 ..< ?n]
       (replicate ?n [], 0, Eye_calls Map.empty calls) = (failure, res', numSeq', cached')"
    by (rule FromCNTKMB_run)
  have len: "length (replicate ?n ([] :: Variable list)) = ?n" by simp
  {
    assume "0 < ?n \<and> 0 < length isSequence"
    then show "fst (snd (snd (convert_argument unpack inputs isSequence device 0
                              (vector_resize ?n [] (vector_clear res), 0,
                               Eye_calls Map.empty calls))))
            = ?count 0"
      by (simp add: convert_argument_first vector_resize_def vector_clear_def)
  }
  {
    assume same: "\<forall>j < ?n. ?count j = N"
    then have "\<forall>j. 0 \<le> j \<and> j < ?n \<longrightarrow> ?count j = N" by simp
    moreover have "(0::nat) = 0 \<or> 0 = N" by simp
    ultimately have "failure \<noteq> Some BatchShapeMismatchError"
      using arguments_loop_no_mismatch [OF len refl Eye_calls_ok _ _ loop] by blast
    then show "fst ?run \<noteq> Some BatchShapeMismatchError"
      using run by simp
  }
  {
    assume a: "0 < ?count 0 \<and> k < ?n \<and> ?count k \<noteq> ?count 0"
    show "fst ?run \<noteq> None"
    proof
      assume "fst ?run = None"
      then have "failure = None" using run by simp
      then have "\<forall>i. 0 \<le> i \<and> i < ?n \<longrightarrow>
           ((0::nat) \<noteq> 0 \<longrightarrow> ?count i = 0) \<and> ((0::nat) = 0 \<and> ?count 0 \<noteq> 0 \<longrightarrow> ?count i = ?count 0)"
        using arguments_loop_counts [OF len refl Eye_calls_ok] loop by blast
      then have "?count k = ?count 0" using a by simp
      then show False using a by simp
    qed
  }
  {
    assume a: "?n \<le> length isSequence \<and> 0 < ?count 0 \<and> k < ?n \<and> ?count k \<noteq> ?count 0
       \<and> (\<forall>j < k. \<forall>s < ?count j. convertible (isSequence ! j)
                          (stream_sequences unpack inputs isSequence device j ! s))"
    then have differs: "?count k \<noteq> ?count 0"
      and flags: "?n \<le> length isSequence" and first: "0 < ?count 0" and kn0: "k < ?n"
      and conv: "\<forall>j < k. \<forall>s < ?count j. convertible (isSequence ! j)
                          (stream_sequences unpack inputs isSequence device j ! s)"
      by blast+
    obtain k' where k': "k' \<le> k" "?count k' \<noteq> ?count 0" "\<forall>j < k'. ?count j = ?count 0"
      using first_mismatch [of ?count k, OF differs] by blast
    have before: "\<forall>j < k'. ?count j = ?count 0
          \<and> (\<forall>s < ?count 0. convertible (isSequence ! j)
                  (stream_sequences unpack inputs isSequence device j ! s))"
    proof (intro allI impI conjI)
      fix j assume j: "j < k'"
      then show c: "?count j = ?count 0" using k'(3) by blast
      fix s assume s: "s < ?count 0"
      have "j < k" using j k'(1) by (rule less_le_trans)
      moreover have "s < ?count j" using s c by (rule ssubst [where P = "\<lambda>x. s < x", rotated])
      ultimately show "convertible (isSequence ! j)
                  (stream_sequences unpack inputs isSequence device j ! s)"
        using conv by blast
    qed
    have kn: "k' < ?n" using k'(1) kn0 by (rule le_less_trans)
    show "fst ?run = Some BatchShapeMismatchError"
      using flags first kn k'(2) before by (rule mismatch_reached)
  }
qed

lemma Index_trailing_one:
  assumes "Shape data \<noteq> []" and "last (Shape data) = 1"
  shows "Index data 0 = Inr (data\<lparr>Shape := butlast (Shape data)\<rparr>)"
  using drop_sample_axis_one [OF assms] assms by (simp add: drop_sample_axis_def)

text \<open>The first example at which line 113 throws, in the order of the two loops.\<close>

lemma malformed_reached:
  assumes flags: "length inputs \<le> length isSequence"
    and i: "i < length inputs"
    and counts: "\<forall>j \<le> i. length (stream_sequences unpack inputs isSequence device j) = N"
    and before: "\<forall>j < i. \<forall>t < N. convertible (isSequence ! j)
                               (stream_sequences unpack inputs isSequence device j ! t)"
    and s: "s < N"
    and earlier: "\<forall>t < s. convertible False (stream_sequences unpack inputs isSequence device i ! t)"
    and bad: "malformed (isSequence ! i) (stream_sequences unpack inputs isSequence device i ! s)"
  shows "fst (FromCNTKMB unpack (Eye_calls Map.empty calls) res inputs isSequence device)
            = Some MalformedStreamError"
proof -
  let ?run = "FromCNTKMB unpack (Eye_calls Map.empty calls) res inputs isSequence device"
  let ?n = "length inputs"
  let ?seqs = "\<lambda>j. stream_sequences unpack inputs isSequence device j"
  have len: "length (replicate ?n ([] :: Variable list)) = ?n" by simp
  obtain failure res'' cached'' where run: "?run = (failure, res'', cached'')"
    by (metis prod_cases3)
  then obtain numSeq' where loop:
    "arguments_loop unpack inputs isSequence device [0 ..< ?n]
       (replicate ?n [], 0, Eye_calls Map.empty calls) = (failure, res'', numSeq', cached'')"
    by (rule FromCNTKMB_run)
  have i_le: "i \<le> ?n" using i by simp
  have pre: "\<forall>j. 0 \<le> j \<and> j < i \<longrightarrow> length (?seqs j) = N
         \<and> (\<forall>t < N. convertible (isSequence ! j) (?seqs j ! t))"
    using counts before by simp
  have ns0: "(0::nat) = 0 \<or> 0 = N" by simp
  obtain res1 ns c1 where r: "length res1 = ?n" "Eye_cache_ok c1" "ns = 0 \<or> ns = N"
    "arguments_loop unpack inputs isSequence device [0 ..< ?n]
        (replicate ?n [], 0, Eye_calls Map.empty calls)
      = arguments_loop unpack inputs isSequence device [i ..< ?n] (res1, ns, c1)"
    using arguments_loop_reach [OF len refl flags Eye_calls_ok _ i_le ns0 pre] by blast
  have upt: "[i ..< ?n] = i # [Suc i ..< ?n]" using i by (simp add: upt_conv_Cons)
  have fl: "i < length isSequence" using i flags by simp
  have cnt: "length (?seqs i) = N" using counts by simp
  have nonseq: "\<not> isSequence ! i"
    and shape: "Shape (?seqs i ! s) \<noteq> []" "last (Shape (?seqs i ! s)) \<noteq> 1"
    using bad by (simp_all add: malformed_def)
  obtain state' where "convert_argument unpack inputs isSequence device i (res1, ns, c1)
         = (Some MalformedStreamError, state')"
    using convert_argument_malformed [OF r(1) i refl fl r(2) cnt r(3) nonseq s earlier shape]
    by blast
  then have "arguments_loop unpack inputs isSequence device [i ..< ?n] (res1, ns, c1)
         = (Some MalformedStreamError, state')"
    using upt by simp
  then have "failure = Some MalformedStreamError"
    using r(4) loop by simp
  then show ?thesis using run by simp
qed

lemma first_malformed:
  fixes bad :: "nat \<Rightarrow> nat \<Rightarrow> bool"
  assumes "bad i s" and "s < N"
  obtains j t where "j \<le> i" and "t < N" and "bad j t"
    and "\<forall>j' < j. \<forall>t' < N. \<not> bad j' t'" and "\<forall>t' < t. \<not> bad j t'"
    and "j = i \<longrightarrow> t \<le> s"
proof -
  define j where "j = (LEAST j. \<exists>t < N. bad j t)"
  have ex: "\<exists>t < N. bad i t" using assms by blast
  have j1: "\<exists>t < N. bad j t"
    unfolding j_def using ex by (rule LeastI)
  have j2: "j \<le> i"
    unfolding j_def using ex by (rule Least_le)
  have j3: "\<forall>j' < j. \<forall>t' < N. \<not> bad j' t'"
    unfolding j_def using not_less_Least by blast
  define t where "t = (LEAST t. t < N \<and> bad j t)"
  obtain t0 where t0: "t0 < N \<and> bad j t0" using j1 by blast
  have t1: "t < N \<and> bad j t"
    unfolding t_def using t0 by (rule LeastI)
  have t3: "\<forall>t' < t. \<not> bad j t'"
  proof (intro allI impI)
    fix t' assume lt: "t' < t"
    then have "\<not> (t' < N \<and> bad j t')"
      unfolding t_def by (rule not_less_Least)
    moreover have "t' < N" using lt t1 by simp
    ultimately show "\<not> bad j t'" by simp
  qed
  have t4: "j = i \<longrightarrow> t \<le> s"
  proof
    assume "j = i"
    then have "s < N \<and> bad j s" using assms by simp
    then show "t \<le> s" unfolding t_def by (rule Least_le)
  qed
  show ?thesis using that [of j t] j2 j3 t1 t3 t4 by blast
qed

text \<open>
  C7, as amended. With the map of a running program:
  \<^item> after a call that returns normally, every example \<open>s\<close> of every argument \<open>i\<close>
    declared non-sequential has trailing dimension 1, \<open>Index\<close> at 0 removes that axis,
    and \<open>res[i][s]\<close> is a constant whose shape is the example's shape without it;
  \<^item> an example of such an argument whose trailing dimension is not 1 makes the call
    fail with \<open>MalformedStreamError\<close> when no other error comes first: the arguments
    up to \<open>i\<close> have the same count, and every example before it either converts
    without a throw or has itself a trailing dimension other than 1 in a stream
    declared non-sequential.
\<close>

theorem FromCNTKMB_trailing_axis:
  "(FromCNTKMB unpack (Eye_calls Map.empty calls) res inputs isSequence device = (None, res', cached')
      \<and> i < length inputs \<and> \<not> isSequence ! i
      \<and> s < length (stream_sequences unpack inputs isSequence device i)
    \<longrightarrow> Shape (stream_sequences unpack inputs isSequence device i ! s) \<noteq> []
        \<and> last (Shape (stream_sequences unpack inputs isSequence device i ! s)) = 1
        \<and> Index (stream_sequences unpack inputs isSequence device i ! s) 0
            = Inr ((stream_sequences unpack inputs isSequence device i ! s)
                     \<lparr>Shape := butlast (Shape (stream_sequences unpack inputs isSequence device i ! s))\<rparr>)
        \<and> (\<exists>dense. res' ! i ! s = Constant dense
              \<and> Shape dense = butlast (Shape (stream_sequences unpack inputs isSequence device i ! s))))
   \<and> (length inputs \<le> length isSequence \<and> i < length inputs
       \<and> (\<forall>j \<le> i. length (stream_sequences unpack inputs isSequence device j) = N)
       \<and> s < N
       \<and> malformed (isSequence ! i) (stream_sequences unpack inputs isSequence device i ! s)
       \<and> (\<forall>j < i. \<forall>t < N.
             convertible (isSequence ! j) (stream_sequences unpack inputs isSequence device j ! t)
             \<or> malformed (isSequence ! j) (stream_sequences unpack inputs isSequence device j ! t))
       \<and> (\<forall>t < s.
             convertible (isSequence ! i) (stream_sequences unpack inputs isSequence device i ! t)
             \<or> malformed (isSequence ! i) (stream_sequences unpack inputs isSequence device i ! t))
      \<longrightarrow> fst (FromCNTKMB unpack (Eye_calls Map.empty calls) res inputs isSequence device)
            = Some MalformedStreamError)"
proof (intro conjI impI)
  let ?run = "FromCNTKMB unpack (Eye_calls Map.empty calls) res inputs isSequence device"
  let ?n = "length inputs"
  let ?seqs = "\<lambda>j. stream_sequences unpack inputs isSequence device j"
  have len: "length (replicate ?n ([] :: Variable list)) = ?n" by simp
  {
    assume a: "?run = (None, res', cached') \<and> i < ?n \<and> \<not> isSequence ! i \<and> s < length (?seqs i)"
    then obtain numSeq' where loop:
      "arguments_loop unpack inputs isSequence device [0 ..< ?n]
         (replicate ?n [], 0, Eye_calls Map.empty calls) = (None, res', numSeq', cached')"
      using FromCNTKMB_run by blast
    have "argument_converted unpack inputs isSequence device i (res' ! i)"
      using arguments_loop_result [OF len refl Eye_calls_ok loop] a by simp
    then have E: "length (res' ! i) = length (?seqs i)
       \<and> (\<forall>s < length (res' ! i). \<exists>dense. res' ! i ! s = Constant dense \<and> \<not> IsSparse dense
             \<and> Shape dense = (if isSequence ! i then Shape (?seqs i ! s)
                   else butlast (Shape (?seqs i ! s)))
             \<and> (isSequence ! i \<or> (Shape (?seqs i ! s) \<noteq> [] \<and> last (Shape (?seqs i ! s)) = 1)))"
      by (rule argument_converted_entries)
    then have s: "s < length (res' ! i)" using a by simp
    then obtain dense where d: "res' ! i ! s = Constant dense"
        "Shape dense = butlast (Shape (?seqs i ! s))"
        "Shape (?seqs i ! s) \<noteq> []" "last (Shape (?seqs i ! s)) = 1"
      using E a by auto
    show "Shape (?seqs i ! s) \<noteq> []" by (rule d(3))
    show "last (Shape (?seqs i ! s)) = 1" by (rule d(4))
    show "Index (?seqs i ! s) 0 = Inr ((?seqs i ! s)\<lparr>Shape := butlast (Shape (?seqs i ! s))\<rparr>)"
      using d(3,4) by (rule Index_trailing_one)
    show "\<exists>dense. res' ! i ! s = Constant dense \<and> Shape dense = butlast (Shape (?seqs i ! s))"
      using d(1,2) by blast
  }
  {
    assume a: "?n \<le> length isSequence \<and> i < ?n
       \<and> (\<forall>j \<le> i. length (?seqs j) = N)
       \<and> s < N
       \<and> malformed (isSequence ! i) (?seqs i ! s)
       \<and> (\<forall>j < i. \<forall>t < N. convertible (isSequence ! j) (?seqs j ! t)
                              \<or> malformed (isSequence ! j) (?seqs j ! t))
       \<and> (\<forall>t < s. convertible (isSequence ! i) (?seqs i ! t)
                   \<or> malformed (isSequence ! i) (?seqs i ! t))"
    define bad where "bad = (\<lambda>j t. malformed (isSequence ! j) (?seqs j ! t))"
    have bad_is: "bad i s" and sN: "s < N" using a by (simp_all add: bad_def)
    obtain j t where jt: "j \<le> i" "t < N" "bad j t"
      "\<forall>j' < j. \<forall>t' < N. \<not> bad j' t'" "\<forall>t' < t. \<not> bad j t'" "j = i \<longrightarrow> t \<le> s"
      using first_malformed [of bad i s N, OF bad_is sN] by blast
    have either: "convertible (isSequence ! j') (?seqs j' ! t') \<or> bad j' t'"
      if "(j' < i \<and> t' < N) \<or> (j' = i \<and> t' < s)" for j' t'
      using that a unfolding bad_def by blast
    have flags: "?n \<le> length isSequence" and jn: "j < ?n" using a jt(1) by simp_all
    have counts: "\<forall>j' \<le> j. length (?seqs j') = N" using a jt(1) by simp
    have before: "\<forall>j' < j. \<forall>t' < N. convertible (isSequence ! j') (?seqs j' ! t')"
    proof (intro allI impI)
      fix j' t' assume j': "j' < j" and t': "t' < N"
      then have "j' < i \<and> t' < N" using jt(1) by simp
      then have "convertible (isSequence ! j') (?seqs j' ! t') \<or> bad j' t'"
        using either by blast
      moreover have "\<not> bad j' t'" using jt(4) j' t' by blast
      ultimately show "convertible (isSequence ! j') (?seqs j' ! t')" by blast
    qed
    have nonseq: "\<not> isSequence ! j" using jt(3) by (simp add: bad_def malformed_def)
    have earlier: "\<forall>t' < t. convertible False (?seqs j ! t')"
    proof (intro allI impI)
      fix t' assume t': "t' < t"
      have "(j < i \<and> t' < N) \<or> (j = i \<and> t' < s)"
      proof (cases "j = i")
        case True
        then have "t \<le> s" using jt(6) by simp
        then show ?thesis using True t' by simp
      next
        case False
        then show ?thesis using jt(1,2) t' by simp
      qed
      then have "convertible (isSequence ! j) (?seqs j ! t') \<or> bad j t'"
        using either by blast
      moreover have "\<not> bad j t'" using jt(5) t' by blast
      ultimately show "convertible False (?seqs j ! t')" using nonseq by simp
    qed
    have bad_jt: "malformed (isSequence ! j) (?seqs j ! t)" using jt(3) by (simp add: bad_def)
    show "fst ?run = Some MalformedStreamError"
      using flags jn counts before jt(2) earlier bad_jt by (rule malformed_reached)
  }
qed

lemma convert_sequence_dense:
  assumes "\<not> IsSparse data" and "convert_sequence False cached data = (Inr v, cached')"
  shows "v = Constant (data\<lparr>Shape := butlast (Shape data)\<rparr>)"
proof -
  obtain data' dense where d: "drop_sample_axis False data = Inr data'"
    and e: "densify cached data' = (Inr dense, cached')" and v: "v = Constant dense"
    using assms(2) by (auto simp: convert_sequence_def split: sum.splits prod.splits)
  have "data' = data\<lparr>Shape := butlast (Shape data)\<rparr>"
    using drop_sample_axis_result [OF d] by simp
  then have "dense = data\<lparr>Shape := butlast (Shape data)\<rparr>"
    using e assms(1) by (simp add: densify_def)
  then show ?thesis using v by simp
qed

lemma stream_variable_sample:
  assumes "Shape input = sample @ [len, batch]" and "length sample + 2 < 2 ^ 64"
  shows "stream_variable input isSeq
     = InputVariable sample (IsSparse input) (GetDataType input)
         (if isSeq then DefaultInputVariableDynamicAxes else [DefaultBatchAxis])"
proof -
  have "(length (Shape input) + 2 ^ 64 - 2) mod 2 ^ 64 = length sample"
    using assms by simp
  then show ?thesis
    by (simp add: stream_variable_def SubShape_def Let_def assms(1))
qed

lemma UnpackVariableValue_examples:
  assumes "Shape input = sample @ [len, batch]"
  shows "UnpackVariableValue input (InputVariable sample sparse dataType axes) device
     = map (\<lambda>s. \<lparr>Shape = sample @ [len],
                  Buffer = take (TotalSize (sample @ [len]))
                             (drop (s * TotalSize (sample @ [len])) (Buffer input)),
                  IsSparse = sparse, GetDataType = dataType, Device = device,
                  IsReadOnly = True\<rparr>) [0 ..< batch]"
proof -
  have "Shape input ! (length (Shape input) - 2) = len"
    using assms by (simp add: nth_append)
  then show ?thesis
    using assms by (simp add: UnpackVariableValue_def Let_def)
qed

text \<open>The constant stored for a sparse example of a stream without a sequence axis.\<close>

lemma convert_sequence_sparse:
  assumes ok: "Eye_cache_ok cached"
    and run: "convert_sequence False cached data = (Inr v, cached')"
    and sparse: "IsSparse data"
    and wf: "length (Buffer data) = TotalSize (butlast (Shape data))"
    and small: "hd (butlast (Shape data)) < 2 ^ 32"
  shows "v = Constant \<lparr>Shape = butlast (Shape data), Buffer = Buffer data, IsSparse = False,
                       GetDataType = GetDataType data, Device = Device data, IsReadOnly = False\<rparr>"
proof -
  let ?X = "data\<lparr>Shape := butlast (Shape data)\<rparr>"
  obtain data' dense where d: "drop_sample_axis False data = Inr data'"
    and e: "densify cached data' = (Inr dense, cached')" and v: "v = Constant dense"
    using run by (auto simp: convert_sequence_def split: sum.splits prod.splits)
  have X: "data' = ?X"
    using drop_sample_axis_result [OF d] by simp
  have spX: "IsSparse ?X" using sparse by simp
  obtain n rest eye where sh: "Shape ?X = n # rest"
    and ey: "Eye cached n (GetDataType ?X) (Device ?X) = (Inr eye, cached')"
    and p: "MatrixProduct False eye False ?X False 1 1 = Inr dense"
    using e spX unfolding X by (auto simp: densify_def split: list.splits prod.splits sum.splits)
  have n: "n < 2 ^ 32" using small sh by simp
  have ok': "Eye_cache_ok cached'"
    using ok ey by (rule Eye_cache_ok_result)
  have "cached' (n, GetDataType ?X) = Some eye"
    using ey by (rule Eye_result_stored)
  then obtain elementSize dv where mk: "MakeEye elementSize n (GetDataType ?X) dv = Inr eye"
    using ok' unfolding Eye_cache_ok_def by blast
  have shape: "Shape eye = [n, n]"
    using MakeEye_device_shape [OF mk] by simp
  have buf: "\<forall>k < n * n. Buffer eye ! k = (if k mod n = k div n then 1 else 0)"
    using MakeEye_buffer [OF n mk] by simp
  have wfX: "well_formed ?X" using wf by (simp add: well_formed_def)
  have "MatrixProduct False eye False ?X False 1 1
         = Inr \<lparr>Shape = Shape ?X, Buffer = Buffer ?X, IsSparse = False,
                GetDataType = GetDataType ?X, Device = Device ?X, IsReadOnly = False\<rparr>"
    using shape buf sh wfX by (rule MatrixProduct_identity)
  then have "dense = \<lparr>Shape = butlast (Shape data), Buffer = Buffer data, IsSparse = False,
                       GetDataType = GetDataType data, Device = Device data, IsReadOnly = False\<rparr>"
    using p by simp
  then show ?thesis using v by simp
qed

lemma block_length:
  assumes "length buffer = m * batch" and "s < batch"
  shows "length (take m (drop (s * m) buffer)) = m"
proof -
  have "Suc s \<le> batch" using assms(2) by simp
  then have "m * Suc s \<le> m * batch" by (rule mult_le_mono2)
  then have "s * m + m \<le> length buffer" using assms(1) by (simp add: mult.commute)
  then show ?thesis by simp
qed

text \<open>
  C9. For a stream declared non-sequential of packed shape \<open>sample @ [1, batch]\<close> (the
  rank fits a \<open>size_t\<close>), a call that returns normally leaves exactly \<open>batch\<close> examples in
  \<open>res[i]\<close>, in batch-item order: \<open>res[i][s]\<close> is the conversion of the \<open>s\<close>-th unpacked
  example, which holds the \<open>s\<close>-th block of the packed buffer, and it is a dense constant
  of shape \<open>sample\<close>. Its elements are that block, for a dense stream and for a sparse
  stream that is well formed and has a leading dimension below \<open>2 ^ 32\<close> (where the
  identity matrix is exact).
\<close>

theorem FromCNTKMB_non_sequence_shapes:
  assumes "FromCNTKMB UnpackVariableValue (Eye_calls Map.empty calls) res inputs isSequence device
             = (None, res', cached')"
    and "i < length inputs" and "\<not> isSequence ! i"
    and "Shape (inputs ! i) = sample @ [1, batch]" and "length sample + 2 < 2 ^ 64"
  shows "length (res' ! i) = batch
       \<and> length (UnpackVariableValue (inputs ! i) (stream_variable (inputs ! i) False) device) = batch
       \<and> (\<forall>s < batch. \<exists>dense.
             res' ! i ! s = Constant dense
           \<and> Shape dense = sample
           \<and> \<not> IsSparse dense
           \<and> (\<exists>c0 c1. Eye_cache_ok c0
                 \<and> convert_sequence False c0
                      (UnpackVariableValue (inputs ! i) (stream_variable (inputs ! i) False) device ! s)
                     = (Inr (res' ! i ! s), c1))
           \<and> Buffer (UnpackVariableValue (inputs ! i) (stream_variable (inputs ! i) False) device ! s)
               = take (TotalSize sample) (drop (s * TotalSize sample) (Buffer (inputs ! i)))
           \<and> ((IsSparse (inputs ! i) \<longrightarrow> well_formed (inputs ! i) \<and> hd sample < 2 ^ 32)
                \<longrightarrow> Buffer dense
                      = take (TotalSize sample) (drop (s * TotalSize sample) (Buffer (inputs ! i)))
                  \<and> GetDataType dense = GetDataType (inputs ! i)))"
proof -
  let ?n = "length inputs"
  let ?seqs = "UnpackVariableValue (inputs ! i) (stream_variable (inputs ! i) False) device"
  let ?m = "TotalSize sample"
  have seqs: "stream_sequences UnpackVariableValue inputs isSequence device i = ?seqs"
    using assms(3) by (simp add: stream_sequences_def)
  have ex: "?seqs = map (\<lambda>s. \<lparr>Shape = sample @ [1],
                  Buffer = take (TotalSize (sample @ [1]))
                             (drop (s * TotalSize (sample @ [1])) (Buffer (inputs ! i))),
                  IsSparse = IsSparse (inputs ! i), GetDataType = GetDataType (inputs ! i),
                  Device = device, IsReadOnly = True\<rparr>) [0 ..< batch]"
    using stream_variable_sample [OF assms(4,5), of False] UnpackVariableValue_examples [OF assms(4)]
    by simp
  have cnt: "length ?seqs = batch" unfolding ex by simp
  obtain numSeq' where loop:
    "arguments_loop UnpackVariableValue inputs isSequence device [0 ..< ?n]
       (replicate ?n [], 0, Eye_calls Map.empty calls) = (None, res', numSeq', cached')"
    using assms(1) by (rule FromCNTKMB_run)
  have len: "length (replicate ?n ([] :: Variable list)) = ?n" by simp
  have conv: "argument_converted UnpackVariableValue inputs isSequence device i (res' ! i)"
    using arguments_loop_result [OF len refl Eye_calls_ok loop] assms(2) by simp
  then have l: "length (res' ! i) = batch"
    using seqs cnt by (simp add: argument_converted_def)
  have "\<exists>dense.
             res' ! i ! s = Constant dense
           \<and> Shape dense = sample
           \<and> \<not> IsSparse dense
           \<and> (\<exists>c0 c1. Eye_cache_ok c0
                 \<and> convert_sequence False c0 (?seqs ! s) = (Inr (res' ! i ! s), c1))
           \<and> Buffer (?seqs ! s) = take ?m (drop (s * ?m) (Buffer (inputs ! i)))
           \<and> ((IsSparse (inputs ! i) \<longrightarrow> well_formed (inputs ! i) \<and> hd sample < 2 ^ 32)
                \<longrightarrow> Buffer dense = take ?m (drop (s * ?m) (Buffer (inputs ! i)))
                  \<and> GetDataType dense = GetDataType (inputs ! i))"
    if s: "s < batch" for s
  proof -
    let ?block = "take ?m (drop (s * ?m) (Buffer (inputs ! i)))"
    have x: "?seqs ! s = \<lparr>Shape = sample @ [1], Buffer = ?block,
                  IsSparse = IsSparse (inputs ! i), GetDataType = GetDataType (inputs ! i),
                  Device = device, IsReadOnly = True\<rparr>"
      unfolding ex using s by (simp add: TotalSize_snoc)
    obtain c0 c1 where c: "Eye_cache_ok c0"
      "convert_sequence False c0 (?seqs ! s) = (Inr (res' ! i ! s), c1)"
      using conv s l seqs assms(3) unfolding argument_converted_def by auto
    have cs: "\<exists>c0 c1. Eye_cache_ok c0
                 \<and> convert_sequence False c0 (?seqs ! s) = (Inr (res' ! i ! s), c1)"
      using c by blast
    obtain dense where d: "res' ! i ! s = Constant dense" "\<not> IsSparse dense"
        "Shape dense = butlast (Shape (?seqs ! s))"
      using convert_sequence_result [OF c] by auto
    have sh: "Shape dense = sample" using d(3) x by simp
    have bx: "Buffer (?seqs ! s) = ?block" using x by simp
    have order: "Buffer dense = ?block \<and> GetDataType dense = GetDataType (inputs ! i)"
      if guard: "IsSparse (inputs ! i) \<longrightarrow> well_formed (inputs ! i) \<and> hd sample < 2 ^ 32"
    proof (cases "IsSparse (inputs ! i)")
      case False
      then have "\<not> IsSparse (?seqs ! s)" using x by simp
      then have "res' ! i ! s = Constant ((?seqs ! s)\<lparr>Shape := butlast (Shape (?seqs ! s))\<rparr>)"
        using c(2) by (rule convert_sequence_dense)
      then have "dense = (?seqs ! s)\<lparr>Shape := butlast (Shape (?seqs ! s))\<rparr>"
        using d(1) by simp
      then show ?thesis using x by simp
    next
      case True
      then have wf: "well_formed (inputs ! i)" and small: "hd sample < 2 ^ 32"
        using guard by simp_all
      have "length (Buffer (inputs ! i)) = ?m * batch"
        using wf assms(4) by (simp add: well_formed_def TotalSize_def)
      then have bl: "length ?block = ?m" using s by (rule block_length)
      have sp: "IsSparse (?seqs ! s)" using True x by simp
      have wfx: "length (Buffer (?seqs ! s)) = TotalSize (butlast (Shape (?seqs ! s)))"
        using x bl by simp
      have smx: "hd (butlast (Shape (?seqs ! s))) < 2 ^ 32"
        using x small by simp
      have "res' ! i ! s = Constant \<lparr>Shape = butlast (Shape (?seqs ! s)), Buffer = Buffer (?seqs ! s),
               IsSparse = False, GetDataType = GetDataType (?seqs ! s), Device = Device (?seqs ! s),
               IsReadOnly = False\<rparr>"
        using c sp wfx smx by (rule convert_sequence_sparse)
      then have "dense = \<lparr>Shape = butlast (Shape (?seqs ! s)), Buffer = Buffer (?seqs ! s),
               IsSparse = False, GetDataType = GetDataType (?seqs ! s), Device = Device (?seqs ! s),
               IsReadOnly = False\<rparr>"
        using d(1) by simp
      then show ?thesis using x by simp
    qed
    show ?thesis
    proof (intro exI conjI impI)
      show "res' ! i ! s = Constant dense" by (rule d(1))
      show "Shape dense = sample" by (rule sh)
      show "\<not> IsSparse dense" by (rule d(2))
      show "Eye_cache_ok c0" by (rule c(1))
      show "convert_sequence False c0 (?seqs ! s) = (Inr (res' ! i ! s), c1)" by (rule c(2))
      show "Buffer (?seqs ! s) = ?block" by (rule bx)
    next
      assume "IsSparse (inputs ! i) \<longrightarrow> well_formed (inputs ! i) \<and> hd sample < 2 ^ 32"
      then show "Buffer dense = ?block" using order by blast
    next
      assume "IsSparse (inputs ! i) \<longrightarrow> well_formed (inputs ! i) \<and> hd sample < 2 ^ 32"
      then show "GetDataType dense = GetDataType (inputs ! i)" using order by blast
    qed
  qed
  then show ?thesis using l cnt by blast
qed

subsection \<open>Concrete batches\<close>

text \<open>The example streams unpacked, and \<open>FromCNTKMB\<close> evaluated on batches of them.\<close>

lemma upt_2: "[0 ..< 2] = [0, Suc 0]"
  by (simp add: upt_rec)

lemma unpack_A:
  "UnpackVariableValue stream_A (stream_variable stream_A isSeq) device
     = [\<lparr>Shape = [2, 1], Buffer = [1, 2], IsSparse = False, GetDataType = Float,
         Device = device, IsReadOnly = True\<rparr>]"
  by (simp add: stream_A_def float_tensor_def stream_variable_def SubShape_def
        UnpackVariableValue_def TotalSize_def Let_def)

lemma unpack_B:
  "UnpackVariableValue stream_B (stream_variable stream_B isSeq) device
     = [\<lparr>Shape = [2, 1], Buffer = [1, 2], IsSparse = False, GetDataType = Float,
         Device = device, IsReadOnly = True\<rparr>,
        \<lparr>Shape = [2, 1], Buffer = [3, 4], IsSparse = False, GetDataType = Float,
         Device = device, IsReadOnly = True\<rparr>]"
  by (simp add: stream_B_def float_tensor_def stream_variable_def SubShape_def
        UnpackVariableValue_def TotalSize_def Let_def upt_2)

lemma unpack_L:
  "UnpackVariableValue stream_L (stream_variable stream_L isSeq) device
     = [\<lparr>Shape = [2, 2], Buffer = [1, 2, 3, 4], IsSparse = False, GetDataType = Float,
         Device = device, IsReadOnly = True\<rparr>]"
  by (simp add: stream_L_def float_tensor_def stream_variable_def SubShape_def
        UnpackVariableValue_def TotalSize_def Let_def)

lemma unpack_M:
  "UnpackVariableValue stream_M (stream_variable stream_M isSeq) device
     = [\<lparr>Shape = [2, 2], Buffer = [1, 2, 3, 4], IsSparse = False, GetDataType = Float,
         Device = device, IsReadOnly = True\<rparr>,
        \<lparr>Shape = [2, 2], Buffer = [5, 6, 7, 8], IsSparse = False, GetDataType = Float,
         Device = device, IsReadOnly = True\<rparr>]"
  by (simp add: stream_M_def float_tensor_def stream_variable_def SubShape_def
        UnpackVariableValue_def TotalSize_def Let_def upt_2)

lemma unpack_Z:
  "UnpackVariableValue stream_Z (stream_variable stream_Z isSeq) device = []"
  by (simp add: stream_Z_def float_tensor_def stream_variable_def SubShape_def
        UnpackVariableValue_def TotalSize_def Let_def)

lemma unpack_U:
  "UnpackVariableValue stream_U (stream_variable stream_U isSeq) device
     = [\<lparr>Shape = [2, 1], Buffer = [1, 2], IsSparse = True, GetDataType = OtherDataType 3,
         Device = device, IsReadOnly = True\<rparr>]"
  by (simp add: stream_U_def float_tensor_def stream_variable_def SubShape_def
        UnpackVariableValue_def TotalSize_def Let_def)

lemma unpack_S:
  "UnpackVariableValue stream_S (stream_variable stream_S isSeq) device
     = [\<lparr>Shape = [2, 1], Buffer = [1, 2], IsSparse = True, GetDataType = Float,
         Device = device, IsReadOnly = True\<rparr>,
        \<lparr>Shape = [2, 1], Buffer = [3, 4], IsSparse = True, GetDataType = Float,
         Device = device, IsReadOnly = True\<rparr>]"
  by (simp add: stream_S_def float_tensor_def stream_variable_def SubShape_def
        UnpackVariableValue_def TotalSize_def Let_def upt_2)

lemmas run_simps = FromCNTKMB_def vector_clear_def vector_resize_def convert_argument_def
  check_numSeq_def hasAxis_stream_variable convert_sequence_def drop_sample_axis_def densify_def
  Index_def Index_slices_def AsShape_def TotalSize_def Let_def
  unpack_A unpack_B unpack_L unpack_M unpack_Z


lemma run_A_L_B:
  "FromCNTKMB UnpackVariableValue cached res [stream_A, stream_L, stream_B] [True, False, True] device
     = (Some MalformedStreamError,
        [[Constant \<lparr>Shape = [2, 1], Buffer = [1, 2], IsSparse = False, GetDataType = Float,
                     Device = device, IsReadOnly = True\<rparr>],
         [NullVariable],
         []],
        cached)"
  by (simp add: run_simps)

lemma run_Z_B:
  "FromCNTKMB UnpackVariableValue cached res [stream_Z, stream_B] [True, True] device
     = (None,
        [[],
         [Constant \<lparr>Shape = [2, 1], Buffer = [1, 2], IsSparse = False, GetDataType = Float,
                     Device = device, IsReadOnly = True\<rparr>,
          Constant \<lparr>Shape = [2, 1], Buffer = [3, 4], IsSparse = False, GetDataType = Float,
                     Device = device, IsReadOnly = True\<rparr>]],
        cached)"
  by (simp add: run_simps)

lemma run_A_M:
  "FromCNTKMB UnpackVariableValue cached res [stream_A, stream_M] [True, False] device
     = (Some BatchShapeMismatchError,
        [[Constant \<lparr>Shape = [2, 1], Buffer = [1, 2], IsSparse = False, GetDataType = Float,
                     Device = device, IsReadOnly = True\<rparr>],
         []],
        cached)"
  by (simp add: run_simps)

lemma run_B:
  "FromCNTKMB UnpackVariableValue cached res [stream_B] [False] device
     = (None,
        [[Constant \<lparr>Shape = [2], Buffer = [1, 2], IsSparse = False, GetDataType = Float,
                     Device = device, IsReadOnly = True\<rparr>,
          Constant \<lparr>Shape = [2], Buffer = [3, 4], IsSparse = False, GetDataType = Float,
                     Device = device, IsReadOnly = True\<rparr>]],
        cached)"
  by (simp add: run_simps)

lemma identity_2: "\<forall>k < 2 * 2. [1, 0, 0, 1::rat] ! k = (if k mod 2 = k div 2 then 1 else 0)"
proof (intro allI impI)
  fix k :: nat assume "k < 2 * 2"
  then have "k = 0 \<or> k = 1 \<or> k = 2 \<or> k = 3" by auto
  then show "[1, 0, 0, 1::rat] ! k = (if k mod 2 = k div 2 then 1 else 0)"
    by (elim disjE) simp_all
qed

lemma MatrixProduct_2:
  "MatrixProduct False \<lparr>Shape = [2, 2], Buffer = [1, 0, 0, 1], IsSparse = False,
               GetDataType = Float, Device = d, IsReadOnly = False\<rparr> False
      \<lparr>Shape = [2], Buffer = [a, b], IsSparse = True, GetDataType = Float,
         Device = device, IsReadOnly = True\<rparr> False 1 (Suc 0)
    = Inr \<lparr>Shape = [2], Buffer = [a, b], IsSparse = False, GetDataType = Float,
         Device = device, IsReadOnly = False\<rparr>"
  using MatrixProduct_identity [of "\<lparr>Shape = [2, 2], Buffer = [1, 0, 0, 1], IsSparse = False,
               GetDataType = Float, Device = d, IsReadOnly = False\<rparr>" 2
      "\<lparr>Shape = [2], Buffer = [a, b], IsSparse = True, GetDataType = Float,
         Device = device, IsReadOnly = True\<rparr>" "[]"] identity_2
  by (simp add: well_formed_def TotalSize_def)

lemma Eye_2_hit:
  "Eye [(2, Float) \<mapsto> eye] 2 Float device = (Inr eye, [(2, Float) \<mapsto> eye])"
  by (simp add: Eye_def)

lemma run_S:
  "FromCNTKMB UnpackVariableValue Map.empty res [stream_S] [False] device
     = (None,
        [[Constant \<lparr>Shape = [2], Buffer = [1, 2], IsSparse = False, GetDataType = Float,
                     Device = device, IsReadOnly = False\<rparr>,
          Constant \<lparr>Shape = [2], Buffer = [3, 4], IsSparse = False, GetDataType = Float,
                     Device = device, IsReadOnly = False\<rparr>]],
        [(2, Float) \<mapsto> \<lparr>Shape = [2, 2], Buffer = [1, 0, 0, 1], IsSparse = False,
               GetDataType = Float, Device = device, IsReadOnly = False\<rparr>])"
  by (simp add: run_simps unpack_S Eye_2 Eye_2_hit MatrixProduct_2)

lemma run_U_L:
  "fst (FromCNTKMB UnpackVariableValue Map.empty res [stream_U, stream_L] [False, False] device)
     = Some UnsupportedTypeError"
  by (simp add: run_simps unpack_U Eye_def)



theorem FromCNTKMB_count_check_counterexample:
  "fst (FromCNTKMB UnpackVariableValue Map.empty [] [stream_A, stream_L, stream_B]
          [True, False, True] CPUDevice) = Some MalformedStreamError
   \<and> length (stream_sequences UnpackVariableValue [stream_A, stream_L, stream_B]
               [True, False, True] CPUDevice 0) = 1
   \<and> length (stream_sequences UnpackVariableValue [stream_A, stream_L, stream_B]
               [True, False, True] CPUDevice 2) = 2
   \<and> fst (FromCNTKMB UnpackVariableValue Map.empty [] [stream_Z, stream_B]
            [True, True] CPUDevice) = None
   \<and> length (stream_sequences UnpackVariableValue [stream_Z, stream_B] [True, True] CPUDevice 0) = 0
   \<and> length (stream_sequences UnpackVariableValue [stream_Z, stream_B] [True, True] CPUDevice 1) = 2"
  by (simp add: run_A_L_B run_Z_B stream_sequences_def unpack_A unpack_B unpack_Z)

theorem FromCNTKMB_count_check_witness:
  "fst (snd (snd (convert_argument UnpackVariableValue [stream_A, stream_B] [True, True] CPUDevice 0
                    (vector_resize (length [stream_A, stream_B]) [] (vector_clear []), 0,
                     Eye_calls Map.empty []))))
     = 1
   \<and> length (stream_sequences UnpackVariableValue [stream_B, stream_B] [True, True] CPUDevice 0) = 2
   \<and> length (stream_sequences UnpackVariableValue [stream_B, stream_B] [True, True] CPUDevice 1) = 2
   \<and> fst (FromCNTKMB UnpackVariableValue (Eye_calls Map.empty []) [] [stream_B, stream_B]
            [True, True] CPUDevice) \<noteq> Some BatchShapeMismatchError
   \<and> length [stream_A, stream_B] \<le> length [True, True]
   \<and> 0 < length (stream_sequences UnpackVariableValue [stream_A, stream_B] [True, True] CPUDevice 0)
   \<and> (1::nat) < length [stream_A, stream_B]
   \<and> length (stream_sequences UnpackVariableValue [stream_A, stream_B] [True, True] CPUDevice 1)
       \<noteq> length (stream_sequences UnpackVariableValue [stream_A, stream_B] [True, True] CPUDevice 0)
   \<and> convertible True
        (stream_sequences UnpackVariableValue [stream_A, stream_B] [True, True] CPUDevice 0 ! 0)
   \<and> fst (FromCNTKMB UnpackVariableValue (Eye_calls Map.empty []) [] [stream_A, stream_B]
            [True, True] CPUDevice) = Some BatchShapeMismatchError"
  using FromCNTKMB_count_check [where unpack = UnpackVariableValue and inputs = "[stream_B, stream_B]"
           and isSequence = "[True, True]" and device = CPUDevice and N = 2 and calls = "[]"
           and res = "[]" and k = 0]
        FromCNTKMB_count_check [where unpack = UnpackVariableValue and inputs = "[stream_A, stream_B]"
           and isSequence = "[True, True]" and device = CPUDevice and N = 2 and calls = "[]"
           and res = "[]" and k = 1]
  by (simp add: stream_sequences_def unpack_A unpack_B convertible_def less_Suc_eq)

theorem FromCNTKMB_trailing_axis_counterexample:
  "fst (FromCNTKMB UnpackVariableValue Map.empty [] [stream_A, stream_M] [True, False] CPUDevice)
     = Some BatchShapeMismatchError
   \<and> [True, False] ! 1 = False
   \<and> last (Shape (stream_sequences UnpackVariableValue [stream_A, stream_M] [True, False]
                     CPUDevice 1 ! 0)) = 2
   \<and> fst (FromCNTKMB UnpackVariableValue Map.empty [] [stream_U, stream_L] [False, False] CPUDevice)
     = Some UnsupportedTypeError
   \<and> [False, False] ! 1 = False
   \<and> length (stream_sequences UnpackVariableValue [stream_U, stream_L] [False, False] CPUDevice 0) = 1
   \<and> length (stream_sequences UnpackVariableValue [stream_U, stream_L] [False, False] CPUDevice 1) = 1
   \<and> last (Shape (stream_sequences UnpackVariableValue [stream_U, stream_L] [False, False]
                     CPUDevice 1 ! 0)) = 2"
  by (simp add: run_A_M run_U_L stream_sequences_def unpack_M unpack_L unpack_U)

theorem FromCNTKMB_trailing_axis_witness:
  "fst (FromCNTKMB UnpackVariableValue (Eye_calls Map.empty []) [] [stream_B] [False] CPUDevice) = None
   \<and> (\<exists>dense. fst (snd (FromCNTKMB UnpackVariableValue (Eye_calls Map.empty []) [] [stream_B]
                           [False] CPUDevice)) ! 0 ! 1 = Constant dense
         \<and> Shape dense = [2])
   \<and> malformed ([True, False] ! 1)
        (stream_sequences UnpackVariableValue [stream_B, stream_M] [True, False] CPUDevice 1 ! 0)
   \<and> convertible True (stream_sequences UnpackVariableValue [stream_B, stream_M] [True, False]
                         CPUDevice 0 ! 0)
   \<and> convertible True (stream_sequences UnpackVariableValue [stream_B, stream_M] [True, False]
                         CPUDevice 0 ! 1)
   \<and> fst (FromCNTKMB UnpackVariableValue (Eye_calls Map.empty []) [] [stream_B, stream_M]
            [True, False] CPUDevice) = Some MalformedStreamError"
proof -
  let ?res = "[[Constant \<lparr>Shape = [2], Buffer = [1, 2], IsSparse = False, GetDataType = Float,
                     Device = CPUDevice, IsReadOnly = True\<rparr>,
          Constant \<lparr>Shape = [2], Buffer = [3, 4], IsSparse = False, GetDataType = Float,
                     Device = CPUDevice, IsReadOnly = True\<rparr>]]"
  have run: "FromCNTKMB UnpackVariableValue (Eye_calls Map.empty []) [] [stream_B] [False] CPUDevice
     = (None, ?res, Eye_calls Map.empty [])"
    by (rule run_B)
  have "\<exists>dense. ?res ! 0 ! 1 = Constant dense
         \<and> Shape dense = butlast (Shape (stream_sequences UnpackVariableValue [stream_B] [False]
                     CPUDevice 0 ! 1))"
    using FromCNTKMB_trailing_axis [where unpack = UnpackVariableValue and inputs = "[stream_B]"
           and isSequence = "[False]" and device = CPUDevice and calls = "[]" and res = "[]"
           and res' = ?res and cached' = "Eye_calls Map.empty []" and i = 0 and s = 1] run
    by (simp add: stream_sequences_def unpack_B)
  then have first: "\<exists>dense. ?res ! 0 ! 1 = Constant dense \<and> Shape dense = [2]"
    by (simp add: stream_sequences_def unpack_B)
  have second: "fst (FromCNTKMB UnpackVariableValue (Eye_calls Map.empty []) [] [stream_B, stream_M]
            [True, False] CPUDevice) = Some MalformedStreamError"
    using FromCNTKMB_trailing_axis [where unpack = UnpackVariableValue
           and inputs = "[stream_B, stream_M]"
           and isSequence = "[True, False]" and device = CPUDevice and calls = "[]" and res = "[]"
           and i = 1 and s = 0 and N = 2]
    by (simp add: stream_sequences_def unpack_B unpack_M convertible_def malformed_def
          less_Suc_eq le_Suc_eq less_2_cases_iff)
  show ?thesis
    using first second run
    by (simp add: stream_sequences_def unpack_B unpack_M convertible_def malformed_def)
qed

theorem FromCNTKMB_non_sequence_shapes_witness:
  "FromCNTKMB UnpackVariableValue (Eye_calls Map.empty []) [] [stream_B] [False] CPUDevice
     = (None,
        [[Constant \<lparr>Shape = [2], Buffer = [1, 2], IsSparse = False, GetDataType = Float,
                     Device = CPUDevice, IsReadOnly = True\<rparr>,
          Constant \<lparr>Shape = [2], Buffer = [3, 4], IsSparse = False, GetDataType = Float,
                     Device = CPUDevice, IsReadOnly = True\<rparr>]],
        Eye_calls Map.empty [])
   \<and> FromCNTKMB UnpackVariableValue (Eye_calls Map.empty []) [] [stream_S] [False] CPUDevice
     = (None,
        [[Constant \<lparr>Shape = [2], Buffer = [1, 2], IsSparse = False, GetDataType = Float,
                     Device = CPUDevice, IsReadOnly = False\<rparr>,
          Constant \<lparr>Shape = [2], Buffer = [3, 4], IsSparse = False, GetDataType = Float,
                     Device = CPUDevice, IsReadOnly = False\<rparr>]],
        [(2, Float) \<mapsto> \<lparr>Shape = [2, 2], Buffer = [1, 0, 0, 1], IsSparse = False,
               GetDataType = Float, Device = CPUDevice, IsReadOnly = False\<rparr>])
   \<and> (0::nat) < length [stream_B] \<and> [False] ! 0 = False
   \<and> Shape ([stream_B] ! 0) = [2] @ [1, 2] \<and> Shape ([stream_S] ! 0) = [2] @ [1, 2]
   \<and> length [2::nat] + 2 < (2::nat) ^ 64
   \<and> \<not> IsSparse ([stream_B] ! 0)
   \<and> IsSparse ([stream_S] ! 0) \<and> well_formed ([stream_S] ! 0) \<and> hd [2::nat] < 2 ^ 32
   \<and> length (UnpackVariableValue ([stream_B] ! 0) (stream_variable ([stream_B] ! 0) False) CPUDevice) = 2
   \<and> length (UnpackVariableValue ([stream_S] ! 0) (stream_variable ([stream_S] ! 0) False) CPUDevice) = 2"
proof -
  let ?resB = "[[Constant \<lparr>Shape = [2], Buffer = [1, 2], IsSparse = False, GetDataType = Float,
                     Device = CPUDevice, IsReadOnly = True\<rparr>,
          Constant \<lparr>Shape = [2], Buffer = [3, 4], IsSparse = False, GetDataType = Float,
                     Device = CPUDevice, IsReadOnly = True\<rparr>]]"
  let ?resS = "[[Constant \<lparr>Shape = [2], Buffer = [1, 2], IsSparse = False, GetDataType = Float,
                     Device = CPUDevice, IsReadOnly = False\<rparr>,
          Constant \<lparr>Shape = [2], Buffer = [3, 4], IsSparse = False, GetDataType = Float,
                     Device = CPUDevice, IsReadOnly = False\<rparr>]]"
  let ?eye = "[(2, Float) \<mapsto> \<lparr>Shape = [2, 2], Buffer = [1, 0, 0, 1], IsSparse = False,
               GetDataType = Float, Device = CPUDevice, IsReadOnly = False\<rparr>]"
  have runB: "FromCNTKMB UnpackVariableValue (Eye_calls Map.empty []) [] [stream_B] [False] CPUDevice
     = (None, ?resB, Eye_calls Map.empty [])"
    by (rule run_B)
  have runS: "FromCNTKMB UnpackVariableValue (Eye_calls Map.empty []) [] [stream_S] [False] CPUDevice
     = (None, ?resS, ?eye)"
    using run_S [of "[]" CPUDevice] by (simp add: Eye_calls_def)
  have i: "0 < length [stream_B]" "0 < length [stream_S]" by simp_all
  have flag: "\<not> [False] ! 0" by simp
  have shB: "Shape ([stream_B] ! 0) = [2] @ [1, 2]"
    by (simp add: stream_B_def float_tensor_def)
  have shS: "Shape ([stream_S] ! 0) = [2] @ [1, 2]"
    by (simp add: stream_S_def float_tensor_def)
  have rank: "length [2::nat] + 2 < 2 ^ 64" by simp
  have sparse: "IsSparse ([stream_S] ! 0) \<longrightarrow> well_formed ([stream_S] ! 0) \<and> hd [2::nat] < 2 ^ 32"
    by (simp add: stream_S_def float_tensor_def well_formed_def TotalSize_def)
  show ?thesis
    using runB runS sparse FromCNTKMB_non_sequence_shapes [OF runB i(1) flag shB rank]
      FromCNTKMB_non_sequence_shapes [OF runS i(2) flag shS rank]
    by (simp add: stream_B_def stream_S_def float_tensor_def well_formed_def TotalSize_def)
qed

end
